theory Spec2Isabelle
  imports Complex_Main "HOL-Library.Char_ord" "HOL-Library.List_Lexorder" "HOL-Library.Multiset"
begin

section \<open>The circulation engine of LMS.jsx\<close>

text \<open>
  The development embeds the logic of \<^verbatim>\<open>src/LMS.jsx\<close>: the fine calculator
  \<^verbatim>\<open>calculateFine\<close>, the two circulation handlers \<^verbatim>\<open>handleBorrow\<close> and
  \<^verbatim>\<open>handleReturn\<close>, and the derived views of the \<^verbatim>\<open>Reports\<close> component.

  Conventions of the embedding.
  \<^item> A JavaScript \<^verbatim>\<open>Date\<close> is its time value, an integer number of milliseconds
    (\<^verbatim>\<open>getTime()\<close>); a nullable date is an \<open>option\<close>.
  \<^item> A JavaScript number that holds a count of copies is an \<open>int\<close>, a money amount is
    a \<open>rat\<close>. The source computes fines in IEEE doubles; every double that occurs
    (an integer number of days, a multiple of one half) is exact as long as the two
    dates are less than \<open>2^25\<close> days apart, and the model is the source on that range.
  \<^item> A Firestore collection, and the array snapshot of it that a component receives,
    is an association list from document id to document data, in document order;
    \<^verbatim>\<open>arr.find(x => x.id === k)\<close> is \<open>map_of arr k\<close>.
\<close>

subsection \<open>Constants and the fine calculator\<close>

type_synonym time = int

type_synonym ident = string

definition FINE_RATE_PER_DAY :: rat where
  "FINE_RATE_PER_DAY = 1 / 2"

definition BORROW_DAYS :: int where
  "BORROW_DAYS = 7"

definition msPerDay :: int where
  "msPerDay = 1000 * 60 * 60 * 24"

text \<open>
  \<^verbatim>\<open>parseFloat(x.toFixed(2))\<close>: the decimal with two fraction digits nearest to
  \<open>x\<close>, the larger one of two equally near, the sign treated apart.
\<close>

definition toFixed2 :: "rat \<Rightarrow> rat" where
  "toFixed2 x =
     (if x < 0 then - (of_int (round (- x * 100)) / 100)
      else of_int (round (x * 100)) / 100)"

text \<open>
  \<^verbatim>\<open>calculateFine\<close> (lines 25 to 32). \<^verbatim>\<open>!dueDate\<close> holds exactly for \<^verbatim>\<open>null\<close>,
  since every \<^verbatim>\<open>Date\<close> object is truthy.
\<close>

definition calculateFine :: "time option \<Rightarrow> time option \<Rightarrow> rat" where
  "calculateFine dueDate returnDate =
     (case dueDate of
        None \<Rightarrow> 0
      | Some d \<Rightarrow>
          (case returnDate of
             None \<Rightarrow> 0
           | Some r \<Rightarrow>
               if r \<le> d then 0
               else
                 let timeDiff = r - d;
                     daysLate = \<lceil>(of_int timeDiff :: rat) / of_int msPerDay\<rceil>
                 in toFixed2 (of_int daysLate * FINE_RATE_PER_DAY)))"

text \<open>The rounding to two decimals that section 4.1 of the specification names.\<close>

definition round2 :: "rat \<Rightarrow> rat" where
  "round2 x = of_int \<lfloor>x * 100 + 1 / 2\<rfloor> / 100"

subsection \<open>Dates\<close>

text \<open>
  The \<^verbatim>\<open>Date\<close> methods that the handlers and the reports call, after the abstract
  operations of the language standard: \<open>Day\<close>, \<open>TimeWithinDay\<close>, \<open>LocalTime\<close>,
  \<open>UTC\<close>, and the civil date of a day number (proleptic Gregorian calendar, day \<open>0\<close>
  is 1970-01-01).

  The time zone of the client is a pair of functions: the offset from UTC in force at a
  time value, and the offset in force at a local time (the standard's
  \<^verbatim>\<open>LocalTZA(t, true)\<close> and \<^verbatim>\<open>LocalTZA(t, false)\<close>). With daylight saving the
  two differ from date to date.
\<close>

record zone =
  offsetAtUTC :: "time \<Rightarrow> int"
  offsetAtLocal :: "time \<Rightarrow> int"

definition LocalTime :: "zone \<Rightarrow> time \<Rightarrow> time" where
  "LocalTime z t = t + offsetAtUTC z t"

definition UTC :: "zone \<Rightarrow> time \<Rightarrow> time" where
  "UTC z t = t - offsetAtLocal z t"

definition Day :: "time \<Rightarrow> int" where
  "Day t = t div msPerDay"

definition TimeWithinDay :: "time \<Rightarrow> int" where
  "TimeWithinDay t = t mod msPerDay"

definition civil :: "int \<Rightarrow> int \<times> int \<times> int" where
  "civil z =
     (let z' = z + 719468;
          era = z' div 146097;
          doe = z' mod 146097;
          yoe = (doe - doe div 1460 + doe div 36524 - doe div 146096) div 365;
          doy = doe - (365 * yoe + yoe div 4 - yoe div 100);
          mp = (5 * doy + 2) div 153;
          d = doy - (153 * mp + 2) div 5 + 1;
          m = (if mp < 10 then mp + 3 else mp - 9);
          y = yoe + era * 400 + (if m \<le> 2 then 1 else 0)
      in (y, m, d))"

definition getFullYear :: "zone \<Rightarrow> time \<Rightarrow> int" where
  "getFullYear z t = fst (civil (Day (LocalTime z t)))"

definition getMonth :: "zone \<Rightarrow> time \<Rightarrow> int" where
  "getMonth z t = fst (snd (civil (Day (LocalTime z t)))) - 1"

definition getDate :: "zone \<Rightarrow> time \<Rightarrow> int" where
  "getDate z t = snd (snd (civil (Day (LocalTime z t))))"

text \<open>
  \<^verbatim>\<open>setDate(dt)\<close> keeps the year, the month and the time within the day of the local
  time and sets the day of the month; a day beyond the end of the month runs on into the
  following months. The new local time goes back to a time value with the offset in
  force at that local time.
\<close>

definition setDate :: "zone \<Rightarrow> time \<Rightarrow> int \<Rightarrow> time" where
  "setDate z t dt =
     (let lt = LocalTime z t;
          monthStart = Day lt - (snd (snd (civil (Day lt))) - 1);
          newDate = (monthStart + dt - 1) * msPerDay + TimeWithinDay lt
      in UTC z newDate)"

text \<open>
  Two zones for the examples: UTC, and New York in 2024, five hours behind UTC, four
  from 2024-03-10 07:00 UTC to 2024-11-03 06:00 UTC (local times that the change skips
  take the offset before it, local times that it repeats the earlier one).
\<close>

definition utcZone :: zone where
  "utcZone = \<lparr>offsetAtUTC = (\<lambda>t. 0), offsetAtLocal = (\<lambda>t. 0)\<rparr>"

definition newYork2024 :: zone where
  "newYork2024 =
     \<lparr>offsetAtUTC = (\<lambda>t. if 1710054000000 \<le> t \<and> t < 1730613600000
                            then - 14400000 else - 18000000),
      offsetAtLocal = (\<lambda>t. if 1710039600000 \<le> t \<and> t < 1730599200000
                              then - 14400000 else - 18000000)\<rparr>"

fun showNat :: "nat \<Rightarrow> string" where
  "showNat n =
     (if n < 10 then [''0123456789'' ! n]
      else showNat (n div 10) @ [''0123456789'' ! (n mod 10)])"

definition showInt :: "int \<Rightarrow> string" where
  "showInt i = (if i < 0 then CHR ''-'' # showNat (nat (- i)) else showNat (nat i))"

definition padStart2 :: "string \<Rightarrow> string" where
  "padStart2 s = (if length s < 2 then CHR ''0'' # s else s)"

definition getMonthYear :: "zone \<Rightarrow> time \<Rightarrow> string" where
  "getMonthYear z date =
     showInt (getFullYear z date) @ ''-'' @ padStart2 (showInt (getMonth z date + 1))"

subsection \<open>Documents, collections and the store\<close>

record book =
  title :: string
  author :: string
  publisher :: string
  category :: string
  totalCopies :: int
  availableCopies :: int

datatype role = Student | Staff

record user =
  name :: string
  role :: role
  isDefaulter :: bool

record txn =
  bookId :: ident
  userId :: ident
  borrowDate :: "time option"
  dueDate :: "time option"
  returnDate :: "time option"
  fineAmount :: rat

type_synonym 'a coll = "(ident \<times> 'a) list"

record store =
  books :: "book coll"
  users :: "user coll"
  transactions :: "txn coll"

text \<open>
  The three operations of a Firestore transaction that the handlers use. \<^verbatim>\<open>t.get\<close>
  reads a document (\<open>None\<close>: it does not exist, \<^verbatim>\<open>data()\<close> is \<^verbatim>\<open>undefined\<close>);
  \<^verbatim>\<open>t.update\<close> changes fields of an existing document and fails on a missing one;
  \<^verbatim>\<open>t.set\<close> writes a document, new or not. \<open>modifyDoc\<close> rewrites the document
  of an id in place.
\<close>

definition t_get :: "'a coll \<Rightarrow> ident \<Rightarrow> 'a option" where
  "t_get c k = map_of c k"

definition modifyDoc :: "ident \<Rightarrow> ('a \<Rightarrow> 'a) \<Rightarrow> 'a coll \<Rightarrow> 'a coll" where
  "modifyDoc k f c = map (\<lambda>(i, d). if i = k then (i, f d) else (i, d)) c"

definition t_update :: "ident \<Rightarrow> ('a \<Rightarrow> 'a) \<Rightarrow> 'a coll \<Rightarrow> 'a coll option" where
  "t_update k f c =
     (case map_of c k of
        None \<Rightarrow> None
      | Some _ \<Rightarrow> Some (modifyDoc k f c))"

definition t_set :: "ident \<Rightarrow> 'a \<Rightarrow> 'a coll \<Rightarrow> 'a coll" where
  "t_set k v c =
     (case map_of c k of
        None \<Rightarrow> c @ [(k, v)]
      | Some _ \<Rightarrow> modifyDoc k (\<lambda>_. v) c)"

text \<open>
  How a handler ends: the transaction committed, the handler returned at once without
  a message (line 472), it logged that the book is not available (line 476), it
  returned because the transaction is already returned (line 512), or the transaction
  threw and the \<^verbatim>\<open>catch\<close> logged the failure.
\<close>

datatype outcome = Committed | Ignored | Unavailable | AlreadyReturned | TransactionFailed

text \<open>
  \<^verbatim>\<open>runTransaction\<close>: the body runs on the current state of the store, its writes
  are applied together or, when it throws, not at all. The handlers' \<^verbatim>\<open>catch\<close> turns
  a throw into a log line.
\<close>

definition runTransaction :: "(store \<Rightarrow> store option) \<Rightarrow> store \<Rightarrow> outcome \<times> store" where
  "runTransaction body db =
     (case body db of
        None \<Rightarrow> (TransactionFailed, db)
      | Some db' \<Rightarrow> (Committed, db'))"

subsection \<open>Borrow and return\<close>

text \<open>
  What \<^verbatim>\<open>handleBorrow\<close> reads from outside: the two readings of the client's clock
  (\<^verbatim>\<open>new Date()\<close> for \<^verbatim>\<open>borrowDate\<close> and for \<^verbatim>\<open>dueDate\<close>), the client's
  time zone, the time the server puts for \<^verbatim>\<open>serverTimestamp()\<close>, and the id that
  \<^verbatim>\<open>doc(transactionCollection)\<close> generates.
\<close>

record borrow_env =
  borrowNow :: time
  dueNow :: time
  clientZone :: zone
  serverTime :: time
  autoId :: ident

record return_env =
  returnNow :: time
  commitTime :: time

definition borrowTransaction ::
  "borrow_env \<Rightarrow> ident \<Rightarrow> ident \<Rightarrow> time \<Rightarrow> store \<Rightarrow> store option" where
  "borrowTransaction e selectedUserId selectedBookId due db =
     (case t_get (books db) selectedBookId of
        None \<Rightarrow> None
      | Some bookDoc \<Rightarrow>
          let newAvailableCopies = availableCopies bookDoc - 1 in
          (case t_update selectedBookId
                  (\<lambda>b. b\<lparr>availableCopies := newAvailableCopies\<rparr>) (books db) of
             None \<Rightarrow> None
           | Some bs \<Rightarrow>
               Some (db\<lparr>books := bs,
                        transactions :=
                          t_set (autoId e)
                            \<lparr>bookId = selectedBookId, userId = selectedUserId,
                             borrowDate = Some (serverTime e), dueDate = Some due,
                             returnDate = None, fineAmount = 0\<rparr>
                            (transactions db)\<rparr>)))"

text \<open>
  \<^verbatim>\<open>handleBorrow\<close> (lines 470 to 509). \<open>snapshot\<close> is the \<^verbatim>\<open>books\<close> array of the
  component, the last snapshot of the collection that the client has received; \<open>db\<close>
  is the store itself, which only the transaction reads.
\<close>

definition handleBorrow ::
  "borrow_env \<Rightarrow> book coll \<Rightarrow> ident \<Rightarrow> ident \<Rightarrow> store \<Rightarrow> outcome \<times> store" where
  "handleBorrow e snapshot selectedUserId selectedBookId db =
     (if selectedUserId = [] \<or> selectedBookId = [] then (Ignored, db)
      else
        (case map_of snapshot selectedBookId of
           None \<Rightarrow> (Unavailable, db)
         | Some selectedBook \<Rightarrow>
             if availableCopies selectedBook < 1 then (Unavailable, db)
             else
               let due = setDate (clientZone e) (dueNow e)
                           (getDate (clientZone e) (borrowNow e) + BORROW_DAYS)
               in runTransaction
                    (borrowTransaction e selectedUserId selectedBookId due) db))"

definition returnTransaction ::
  "return_env \<Rightarrow> ident \<Rightarrow> txn \<Rightarrow> rat \<Rightarrow> store \<Rightarrow> store option" where
  "returnTransaction e txnId t fine db =
     (case t_get (books db) (bookId t) of
        None \<Rightarrow> None
      | Some bookDoc \<Rightarrow>
          let newAvailableCopies = availableCopies bookDoc + 1 in
          (case t_update (bookId t)
                  (\<lambda>b. b\<lparr>availableCopies := newAvailableCopies\<rparr>) (books db) of
             None \<Rightarrow> None
           | Some bs \<Rightarrow>
               (case t_update txnId
                       (\<lambda>x. x\<lparr>returnDate := Some (commitTime e), fineAmount := fine\<rparr>)
                       (transactions db) of
                  None \<Rightarrow> None
                | Some ts \<Rightarrow> Some (db\<lparr>books := bs, transactions := ts\<rparr>))))"

text \<open>
  \<^verbatim>\<open>handleReturn\<close> (lines 511 to 539). Its argument is a row of the component's
  \<^verbatim>\<open>transactions\<close> snapshot: the id of the document and the data as the client last
  saw it.
\<close>

definition handleReturn :: "return_env \<Rightarrow> ident \<times> txn \<Rightarrow> store \<Rightarrow> outcome \<times> store" where
  "handleReturn e row db =
     (case row of
        (txnId, t) \<Rightarrow>
          if returnDate t \<noteq> None then (AlreadyReturned, db)
          else
            let fine = calculateFine (dueDate t) (Some (returnNow e))
            in runTransaction (returnTransaction e txnId t fine) db)"

subsection \<open>Invariants and sequences of operations\<close>

text \<open>
  Invariant I1 of the specification: every book has between zero and
  \<open>totalCopies\<close> available copies. Invariant I2: the copies of a book that are out are
  as many as the open transactions on it.
\<close>

definition I1 :: "store \<Rightarrow> bool" where
  "I1 db = list_all (\<lambda>(i, b). 0 \<le> availableCopies b \<and> availableCopies b \<le> totalCopies b)
             (books db)"

definition openCount :: "txn coll \<Rightarrow> ident \<Rightarrow> nat" where
  "openCount ts i = length (filter (\<lambda>(k, t). bookId t = i \<and> returnDate t = None) ts)"

definition I2 :: "store \<Rightarrow> bool" where
  "I2 db = list_all (\<lambda>(i, b). totalCopies b - availableCopies b
                                 = int (openCount (transactions db) i))
             (books db)"

text \<open>A collection has one document for an id.\<close>

definition uniqueIds :: "store \<Rightarrow> bool" where
  "uniqueIds db = (distinct (map fst (books db)) \<and> distinct (map fst (transactions db)))"

text \<open>
  An operation issued from a client whose snapshots are current: the form is submitted
  with the \<^verbatim>\<open>books\<close> of the store, the Return button is pressed on the row that the
  store has for the transaction (there is no row, and no button, for an id that the
  collection does not have).
\<close>

datatype op = Borrow borrow_env ident ident | Return return_env ident

fun apply_op :: "op \<Rightarrow> store \<Rightarrow> store" where
  "apply_op (Borrow e uid bid) db = snd (handleBorrow e (books db) uid bid db)"
| "apply_op (Return e k) db =
     (case map_of (transactions db) k of
        None \<Rightarrow> db
      | Some t \<Rightarrow> snd (handleReturn e (k, t) db))"

fun run :: "op list \<Rightarrow> store \<Rightarrow> store" where
  "run [] db = db"
| "run (x # xs) db = run xs (apply_op x db)"

fun newIds :: "op list \<Rightarrow> ident list" where
  "newIds [] = []"
| "newIds (Borrow e uid bid # xs) = autoId e # newIds xs"
| "newIds (Return e k # xs) = newIds xs"

subsection \<open>Reports\<close>

text \<open>
  The reports count in plain objects, \<^verbatim>\<open>counts[k] = (counts[k] || 0) + 1\<close> on an
  object that starts as \<^verbatim>\<open>{}\<close>. Such an object is the list of its own properties in
  the order of their creation; a value is a number or, after an addition to something
  that is not a number, a string.

  A key that the object does not own may still have a value: every object inherits the
  methods of \<^verbatim>\<open>Object.prototype\<close>. Reading such a key gives the function, and
  \<^verbatim>\<open>(f || 0) + 1\<close> is the source text of the function followed by \<^verbatim>\<open>1\<close>
  (\<open>functionText\<close> is the text that V8 prints), which the assignment stores as an own
  property. The key \<^verbatim>\<open>__proto__\<close> reads as the prototype and its assignment of a
  string is ignored: it never becomes an own property.
\<close>

datatype jsval = Num nat | Str string

definition inheritedFunction :: "string \<Rightarrow> string option" where
  "inheritedFunction k =
     (if k = ''constructor'' then Some ''Object''
      else if k \<in> set [''toString'', ''toLocaleString'', ''valueOf'', ''hasOwnProperty'',
                       ''isPrototypeOf'', ''propertyIsEnumerable'', ''__defineGetter__'',
                       ''__defineSetter__'', ''__lookupGetter__'', ''__lookupSetter__'']
      then Some k
      else None)"

definition functionText :: "string \<Rightarrow> string" where
  "functionText f = ''function '' @ f @ ''() { [native code] }''"

text \<open>
  \<^verbatim>\<open>(counts[k] || 0) + 1\<close> for a key that is not an own property (and is not
  \<^verbatim>\<open>__proto__\<close>), and for the value of an own property.
\<close>

definition initialCount :: "string \<Rightarrow> jsval" where
  "initialCount k =
     (case inheritedFunction k of
        None \<Rightarrow> Num 1
      | Some f \<Rightarrow> Str (functionText f @ ''1''))"

fun increment :: "jsval \<Rightarrow> jsval" where
  "increment (Num n) = Num (n + 1)"
| "increment (Str s) = (if s = [] then Num 1 else Str (s @ ''1''))"

fun bumpOwn :: "string \<Rightarrow> (string \<times> jsval) list \<Rightarrow> (string \<times> jsval) list" where
  "bumpOwn k [] = [(k, initialCount k)]"
| "bumpOwn k ((k', v) # kvs) =
     (if k' = k then (k', increment v) # kvs else (k', v) # bumpOwn k kvs)"

definition bump :: "string \<Rightarrow> (string \<times> jsval) list \<Rightarrow> (string \<times> jsval) list" where
  "bump k counts = (if k = ''__proto__'' then counts else bumpOwn k counts)"

text \<open>
  \<^verbatim>\<open>Object.entries\<close>: the own properties whose key is an array index (the decimal
  numeral of a number below \<open>2^32 - 1\<close>) in ascending order of the number, then the
  others in the order of their creation.
\<close>

definition readNat :: "string \<Rightarrow> nat" where
  "readNat s = foldl (\<lambda>n c. 10 * n + (of_char c - 48)) 0 s"

definition isArrayIndex :: "string \<Rightarrow> bool" where
  "isArrayIndex s =
     (s \<noteq> [] \<and> list_all (\<lambda>c. c \<in> set ''0123456789'') s
      \<and> (length s = 1 \<or> hd s \<noteq> CHR ''0'') \<and> readNat s < 4294967295)"

definition objectEntries :: "(string \<times> 'v) list \<Rightarrow> (string \<times> 'v) list" where
  "objectEntries obj =
     sort_key (\<lambda>(k, v). readNat k) (filter (\<lambda>(k, v). isArrayIndex k) obj)
     @ filter (\<lambda>(k, v). \<not> isArrayIndex k) obj"

text \<open>
  \<^verbatim>\<open>Array.prototype.sort\<close> with a comparator: a stable sort, an element stays before
  another when the comparator is not positive for the pair. The result is the one the
  standard fixes when the comparator is consistent on the array; otherwise the standard
  leaves the order to the implementation, and this is one.
\<close>

fun insertWith :: "('a \<Rightarrow> 'a \<Rightarrow> int) \<Rightarrow> 'a \<Rightarrow> 'a list \<Rightarrow> 'a list" where
  "insertWith cmp x [] = [x]"
| "insertWith cmp x (y # ys) =
     (if cmp x y \<le> 0 then x # y # ys else y # insertWith cmp x ys)"

definition sortWith :: "('a \<Rightarrow> 'a \<Rightarrow> int) \<Rightarrow> 'a list \<Rightarrow> 'a list" where
  "sortWith cmp xs = foldr (insertWith cmp) xs []"









definition localeCompare :: "string \<Rightarrow> string \<Rightarrow> int" where
  "localeCompare a b = (if a < b then - 1 else if a = b then 0 else 1)"



text \<open>\<^verbatim>\<open>userLateCounts\<close> and \<^verbatim>\<open>defaultersReport\<close> (lines 708 to 725).\<close>

definition MIN_LATE_COUNT_FOR_DEFAULTER :: nat where
  "MIN_LATE_COUNT_FOR_DEFAULTER = 2"

definition userLateCounts :: "txn coll \<Rightarrow> (string \<times> jsval) list" where
  "userLateCounts transactions_snapshot =
     foldl (\<lambda>counts (k, t). if fineAmount t > 0 then bump (userId t) counts else counts)
       [] transactions_snapshot"

text \<open>
  A row of the defaulters report is a user with the field \<^verbatim>\<open>lateCount\<close> added.
  \<^verbatim>\<open>userLateCounts[user.id] >= 2\<close> holds for a number that is at least two; it is
  false for a string, for an inherited function and for \<^verbatim>\<open>undefined\<close>, which all
  convert to \<^verbatim>\<open>NaN\<close>.
\<close>

definition regularDefaulter :: "(string \<times> jsval) list \<Rightarrow> ident \<times> user \<Rightarrow> bool" where
  "regularDefaulter counts row =
     (case map_of counts (fst row) of
        Some (Num n) \<Rightarrow> n \<ge> MIN_LATE_COUNT_FOR_DEFAULTER
      | _ \<Rightarrow> False)"

definition lateCountOf :: "(string \<times> jsval) list \<Rightarrow> ident \<Rightarrow> nat" where
  "lateCountOf counts k = (case map_of counts k of Some (Num n) \<Rightarrow> n | _ \<Rightarrow> 0)"

definition defaultersReport ::
  "user coll \<Rightarrow> (string \<times> jsval) list \<Rightarrow> (ident \<times> user \<times> nat) list" where
  "defaultersReport users_snapshot counts =
     sortWith (\<lambda>(_, _, a) (_, _, b). int b - int a)
       (map (\<lambda>(k, u). (k, u, lateCountOf counts k))
          (filter (regularDefaulter counts) users_snapshot))"

text \<open>
  The effect of lines 729 to 751. \<^verbatim>\<open>updateDoc\<close> changes a field of a stored
  document and rejects when the document does not exist; the loop catches the
  rejection and goes on (\<open>reconcileUser\<close> is the body of the loop). \<open>None\<close> for the collection is the \<^verbatim>\<open>userCollection\<close>
  of a client that has no database yet.
\<close>

definition updateDoc :: "ident \<Rightarrow> ('a \<Rightarrow> 'a) \<Rightarrow> 'a coll \<Rightarrow> 'a coll option" where
  "updateDoc k f c = t_update k f c"

definition reconcileUser :: "ident set \<Rightarrow> user coll \<Rightarrow> ident \<times> user \<Rightarrow> user coll" where
  "reconcileUser defaulterIds c row =
     (case row of
        (k, u) \<Rightarrow>
          let isCurrentlyDefaulter = (k \<in> defaulterIds) in
          if isDefaulter u \<noteq> isCurrentlyDefaulter then
            (case updateDoc k (\<lambda>x. x\<lparr>isDefaulter := isCurrentlyDefaulter\<rparr>) c of
               None \<Rightarrow> c
             | Some c' \<Rightarrow> c')
          else c)"

definition updateDefaulterStatus ::
  "user coll \<Rightarrow> (ident \<times> user \<times> nat) list \<Rightarrow> user coll \<Rightarrow> user coll" where
  "updateDefaulterStatus users_snapshot report stored =
     (let defaulterIds = set (map fst report) in
      foldl (reconcileUser defaulterIds) stored users_snapshot)"

definition defaulterEffect ::
  "user coll \<Rightarrow> txn coll \<Rightarrow> user coll option \<Rightarrow> user coll option" where
  "defaulterEffect users_snapshot transactions_snapshot userCollection =
     (case userCollection of
        None \<Rightarrow> None
      | Some stored \<Rightarrow>
          let report = defaultersReport users_snapshot (userLateCounts transactions_snapshot) in
          if report \<noteq> [] \<or> list_ex (\<lambda>(k, u). isDefaulter u) users_snapshot
          then Some (updateDefaulterStatus users_snapshot report stored)
          else Some stored)"

text \<open>
  The count that section 4.4 of the specification defines: the closed transactions of
  a user that carry a fine.
\<close>

definition lateCount :: "txn coll \<Rightarrow> ident \<Rightarrow> nat" where
  "lateCount ts uid =
     length (filter (\<lambda>(k, t). userId t = uid \<and> returnDate t \<noteq> None \<and> fineAmount t > 0) ts)"


text \<open>The document that \<^verbatim>\<open>handleBorrow\<close> writes for a new loan.\<close>

definition newTxn :: "borrow_env \<Rightarrow> ident \<Rightarrow> ident \<Rightarrow> txn" where
  "newTxn e uid bid =
     \<lparr>bookId = bid, userId = uid, borrowDate = Some (serverTime e),
      dueDate = Some (setDate (clientZone e) (dueNow e)
                        (getDate (clientZone e) (borrowNow e) + BORROW_DAYS)),
      returnDate = None, fineAmount = 0\<rparr>"

subsection \<open>Auxiliary notions\<close>


definition finedUser :: "ident \<times> txn \<Rightarrow> string option" where
  "finedUser row = (if fineAmount (snd row) > 0 then Some (userId (snd row)) else None)"

text \<open>
  A key for which a plain object is a dictionary: not \<^verbatim>\<open>__proto__\<close> and not the name
  of an inherited method. \<open>countValue k n\<close> is what a count dictionary holds for the key
  \<open>k\<close> after \<open>n\<close> counts of it, \<open>numberOf\<close> the number that a value is.
\<close>

definition plainKey :: "string \<Rightarrow> bool" where
  "plainKey k = (k \<noteq> ''__proto__'' \<and> inheritedFunction k = None)"


definition countValue :: "string \<Rightarrow> nat \<Rightarrow> jsval option" where
  "countValue k n =
     (if n = 0 \<or> k = ''__proto__'' then None
      else Some (case inheritedFunction k of
                   None \<Rightarrow> Num n
                 | Some f \<Rightarrow> Str (functionText f @ replicate n (CHR ''1''))))"


text \<open>
  The transactions of a user that carry a fine, closed or not, which is what
  \<^verbatim>\<open>userLateCounts\<close> counts, and the users with the flag that this count gives each of
  them; \<open>classified\<close> is the same with the count of section 4.4 of the specification,
  over closed transactions. Nothing else of a user changes.
\<close>

definition finedCount :: "txn coll \<Rightarrow> ident \<Rightarrow> nat" where
  "finedCount ts uid = length (filter (\<lambda>(k, t). userId t = uid \<and> fineAmount t > 0) ts)"

definition flagged :: "txn coll \<Rightarrow> user coll \<Rightarrow> user coll" where
  "flagged ts us = map (\<lambda>(k, u). (k, u\<lparr>isDefaulter := 2 \<le> finedCount ts k\<rparr>)) us"

definition classified :: "txn coll \<Rightarrow> user coll \<Rightarrow> user coll" where
  "classified ts us = map (\<lambda>(k, u). (k, u\<lparr>isDefaulter := 2 \<le> lateCount ts k\<rparr>)) us"

text \<open>
  What a recomputation on a snapshot of the users leaves of a stored collection: the
  flag of a stored user is rewritten when the row of the user in the snapshot does not
  carry the flag that the count gives, and a user who is not in the snapshot is left as
  stored.
\<close>

definition reconciled :: "txn coll \<Rightarrow> user coll \<Rightarrow> user coll \<Rightarrow> user coll" where
  "reconciled ts users_snapshot stored =
     map (\<lambda>(k, x). (k, case map_of users_snapshot k of
                         None \<Rightarrow> x
                       | Some u \<Rightarrow>
                           if isDefaulter u = (2 \<le> finedCount ts k) then x
                           else x\<lparr>isDefaulter := 2 \<le> finedCount ts k\<rparr>))
       stored"

subsection \<open>Example data\<close>

text \<open>
  A library of one book with a single copy, the clock readings of a borrow on
  2024-01-10 and of a second one a second later (both clients in UTC), those of a borrow
  in New York at noon of 2024-03-08, two days before the clocks go forward, the loan that
  the first borrow
  records (due on 2024-01-17), and the states around it: the copy out, the copy back, and a
  state that counts the copy as available while the loan is still open.
\<close>

definition book1 :: book where
  "book1 = \<lparr>title = ''Emma'', author = ''Austen'', publisher = ''Murray'',
            category = ''Fiction'', totalCopies = 1, availableCopies = 1\<rparr>"

definition db1 :: store where
  "db1 = \<lparr>books = [(''b1'', book1)], users = [], transactions = []\<rparr>"

definition env1 :: borrow_env where
  "env1 = \<lparr>borrowNow = 1704844800000, dueNow = 1704844800000, clientZone = utcZone,
           serverTime = 1704844800250, autoId = ''t1''\<rparr>"

definition env2 :: borrow_env where
  "env2 = \<lparr>borrowNow = 1704844801000, dueNow = 1704844801000, clientZone = utcZone,
           serverTime = 1704844801250, autoId = ''t2''\<rparr>"

definition envNY :: borrow_env where
  "envNY = \<lparr>borrowNow = 1709917200000, dueNow = 1709917200000, clientZone = newYork2024,
            serverTime = 1709917200250, autoId = ''t3''\<rparr>"

definition loan1 :: txn where
  "loan1 = \<lparr>bookId = ''b1'', userId = ''u1'', borrowDate = Some 1704844800250,
            dueDate = Some 1705449600000, returnDate = None, fineAmount = 0\<rparr>"

definition dbOut :: store where
  "dbOut = \<lparr>books = [(''b1'', book1\<lparr>availableCopies := 0\<rparr>)], users = [],
            transactions = [(''t1'', loan1)]\<rparr>"

definition dbFull :: store where
  "dbFull = \<lparr>books = [(''b1'', book1)], users = [], transactions = [(''t1'', loan1)]\<rparr>"

definition ret1 :: return_env where
  "ret1 = \<lparr>returnNow = 1705449660000, commitTime = 1705449660250\<rparr>"

definition ret2 :: return_env where
  "ret2 = \<lparr>returnNow = 1705622400000, commitTime = 1705622400250\<rparr>"

definition dbBack :: store where
  "dbBack = \<lparr>books = [(''b1'', book1)], users = [],
             transactions = [(''t1'', loan1\<lparr>returnDate := Some 1705449660250,
                                            fineAmount := 1 / 2\<rparr>)]\<rparr>"

definition ops1 :: "op list" where
  "ops1 = [Borrow env1 ''u1'' ''b1'', Borrow env2 ''u2'' ''b1'', Return ret1 ''t1'']"



definition exUsers :: "user coll" where
  "exUsers = [(''u1'', \<lparr>name = ''Ann'', role = Student, isDefaulter = False\<rparr>),
              (''u2'', \<lparr>name = ''Bob'', role = Staff, isDefaulter = True\<rparr>)]"

definition exLog :: "txn coll" where
  "exLog =
     [(''t1'', \<lparr>bookId = ''b1'', userId = ''u1'', borrowDate = Some 1704844800250,
               dueDate = Some 1705449600000, returnDate = Some 1705622400250, fineAmount = 1\<rparr>),
      (''t2'', \<lparr>bookId = ''b2'', userId = ''u1'', borrowDate = Some 1706745600000,
               dueDate = Some 1707350400000, returnDate = Some 1707350460000,
               fineAmount = 1 / 2\<rparr>),
      (''t3'', \<lparr>bookId = ''b2'', userId = ''u2'', borrowDate = Some 1706745600000,
               dueDate = Some 1707350400000, returnDate = None, fineAmount = 0\<rparr>),
      (''t4'', \<lparr>bookId = ''b9'', userId = ''u2'', borrowDate = Some 1706745600000,
               dueDate = Some 1707350400000, returnDate = None, fineAmount = 0\<rparr>),
      (''t5'', \<lparr>bookId = ''b2'', userId = ''u9'', borrowDate = None,
               dueDate = Some 1707350400000, returnDate = Some 1707350460000,
               fineAmount = 3\<rparr>)]"

definition exLogCorrected :: "txn coll" where
  "exLogCorrected = modifyDoc ''t2'' (\<lambda>t. t\<lparr>fineAmount := 0\<rparr>) exLog"



definition exLogOpenFine :: "txn coll" where
  "exLogOpenFine = modifyDoc ''t2'' (\<lambda>t. t\<lparr>returnDate := None\<rparr>) exLog"


subsection \<open>Facts about the fine calculator\<close>

lemma toFixed2_half_days: "toFixed2 (of_int n * FINE_RATE_PER_DAY) = of_int n / 2"
proof -
  have pos: "(of_int n * (1 / 2) :: rat) * 100 = of_int (n * 50)"
    by simp
  have neg: "- (of_int n * (1 / 2) :: rat) * 100 = of_int (- n * 50)"
    by simp
  show ?thesis
    unfolding toFixed2_def FINE_RATE_PER_DAY_def pos neg round_of_int by simp
qed

lemma floor_add_half: "\<lfloor>(of_int m :: rat) + 1 / 2\<rfloor> = m"
  by (rule floor_unique) simp_all

lemma round2_half_days: "round2 (of_int n * (1 / 2)) = of_int n / 2"
proof -
  have "(of_int n * (1 / 2) :: rat) * 100 + 1 / 2 = of_int (n * 50) + 1 / 2"
    by simp
  then show ?thesis
    unfolding round2_def by (simp only: floor_add_half)
qed

lemma ceil_div_pos:
  fixes a m :: int
  assumes "0 < m"
  shows "- (- a div m) = (a + m - 1) div m"
proof -
  define q where "q = a div m"
  define r where "r = a mod m"
  have a: "a = q * m + r" and r: "0 \<le> r" "r < m"
    using assms by (simp_all add: q_def r_def)
  have neg: "- a div m = (if r = 0 then - q else - q - 1)"
    using assms zdiv_zminus1_eq_if [of m a] by (simp add: q_def r_def)
  show ?thesis
  proof (cases "r = 0")
    case True
    have "(a + m - 1) div m = (q * m + (m - 1)) div m" using a True by (simp add: algebra_simps)
    also have "\<dots> = q + (m - 1) div m" using assms by (simp only: div_mult_self3)
    also have "\<dots> = q" using assms by simp
    finally show ?thesis using neg True by simp
  next
    case False
    have "(a + m - 1) div m = ((q + 1) * m + (r - 1)) div m" using a by (simp add: algebra_simps)
    also have "\<dots> = q + 1 + (r - 1) div m" using assms by (simp only: div_mult_self3) 
    also have "\<dots> = q + 1" using assms r False by simp
    finally show ?thesis using neg False by simp
  qed
qed

lemma ceiling_days: "\<lceil>(of_int a :: rat) / of_int msPerDay\<rceil> = (a + msPerDay - 1) div msPerDay"
  unfolding ceiling_divide_eq_div by (rule ceil_div_pos) (simp add: msPerDay_def)

lemma calculateFine_late:
  assumes "d < r"
  shows "calculateFine (Some d) (Some r) = of_int ((r - d + msPerDay - 1) div msPerDay) / 2"
  using assms
  by (simp only: calculateFine_def option.case Let_def ceiling_days toFixed2_half_days) simp

lemma calculateFine_on_time: "r \<le> d \<Longrightarrow> calculateFine (Some d) (Some r) = 0"
  by (simp add: calculateFine_def)

lemma calculateFine_first_day:
  assumes "d < r" and "r \<le> d + msPerDay"
  shows "calculateFine (Some d) (Some r) = 1 / 2"
proof -
  have pos: "0 < msPerDay" by (simp add: msPerDay_def)
  have "r - d + msPerDay - 1 = 1 * msPerDay + (r - d - 1)" by simp
  then have "(r - d + msPerDay - 1) div msPerDay = 1 + (r - d - 1) div msPerDay"
    using pos by (simp only: div_mult_self3)
  also have "\<dots> = 1" using assms by simp
  finally show ?thesis
    using calculateFine_late [OF assms(1)] by simp
qed

lemma calculateFine_whole_days:
  assumes "0 < k"
  shows "calculateFine (Some d) (Some (d + k * msPerDay)) = of_int k / 2"
proof -
  have pos: "0 < msPerDay" by (simp add: msPerDay_def)
  have lt: "d < d + k * msPerDay"
    using assms pos by simp
  have "d + k * msPerDay - d + msPerDay - 1 = k * msPerDay + (msPerDay - 1)" by simp
  then have "(d + k * msPerDay - d + msPerDay - 1) div msPerDay = k + (msPerDay - 1) div msPerDay"
    using pos by (simp only: div_mult_self3)
  also have "\<dots> = k" using pos by simp
  finally show ?thesis
    using calculateFine_late [OF lt] by simp
qed

subsection \<open>Facts about collections\<close>

lemma map_of_modifyDoc:
  "map_of (modifyDoc k f c) j = (if j = k then map_option f (map_of c k) else map_of c j)"
  unfolding modifyDoc_def by (induction c) auto

lemma keys_modifyDoc: "map fst (modifyDoc k f c) = map fst c"
  unfolding modifyDoc_def by (induction c) auto

lemma set_keys_modifyDoc: "fst ` set (modifyDoc k f c) = fst ` set c"
  using keys_modifyDoc [of k f c] by (metis set_map)

lemma t_update_eq_Some:
  "t_update k f c = Some c' \<longleftrightarrow> (map_of c k \<noteq> None \<and> c' = modifyDoc k f c)"
  by (auto simp: t_update_def split: option.splits)

lemma map_of_t_set: "map_of (t_set k v c) j = (if j = k then Some v else map_of c j)"
  by (cases "map_of c k")
    (auto simp: t_set_def map_of_modifyDoc map_add_def split: option.splits)

lemma t_set_fresh:
  assumes "k \<notin> fst ` set c"
  shows "t_set k v c = c @ [(k, v)]"
proof -
  have "map_of c k = None"
    using assms by (simp add: map_of_eq_None_iff)
  then show ?thesis
    by (simp add: t_set_def)
qed

lemma modifyDoc_Nil: "modifyDoc k f [] = []"
  by (simp add: modifyDoc_def)

lemma modifyDoc_Cons:
  "modifyDoc k f ((i, d) # c) = (if i = k then (i, f d) else (i, d)) # modifyDoc k f c"
  by (simp add: modifyDoc_def)

lemma modifyDoc_absent:
  assumes "k \<notin> fst ` set c"
  shows "modifyDoc k f c = c"
  using assms by (induction c) (auto simp: modifyDoc_Nil modifyDoc_Cons)

lemma list_all_modifyDoc:
  "list_all P (modifyDoc k f c)
     \<longleftrightarrow> list_all (\<lambda>(i, d). if i = k then P (i, f d) else P (i, d)) c"
  unfolding modifyDoc_def by (induction c) auto

lemma map_of_distinct_in:
  "distinct (map fst c) \<Longrightarrow> (i, d) \<in> set c \<Longrightarrow> map_of c i = Some d"
  by simp

subsection \<open>Facts about dates\<close>

lemma setDate_getDate:
  "setDate z t (getDate z t + n) = UTC z (LocalTime z t + n * msPerDay)"
proof -
  have "Day (LocalTime z t) * msPerDay + TimeWithinDay (LocalTime z t) = LocalTime z t"
    by (simp add: Day_def TimeWithinDay_def)
  then have "(Day (LocalTime z t) - (getDate z t - 1) + (getDate z t + n) - 1) * msPerDay
      + TimeWithinDay (LocalTime z t) = LocalTime z t + n * msPerDay"
    by (simp add: algebra_simps)
  then show ?thesis
    by (simp add: setDate_def getDate_def Let_def)
qed

lemma setDate_getDate_offsets:
  "setDate z t (getDate z t + n)
     = t + n * msPerDay + offsetAtUTC z t - offsetAtLocal z (t + offsetAtUTC z t + n * msPerDay)"
  by (simp add: setDate_getDate UTC_def LocalTime_def)

lemma setDate_getDate_utcZone: "setDate utcZone t (getDate utcZone t + n) = t + n * msPerDay"
  by (simp add: setDate_getDate_offsets utcZone_def)

subsection \<open>Facts about the two handlers\<close>

lemma handleBorrow_not_Committed:
  assumes "fst (handleBorrow e snapshot uid bid db) \<noteq> Committed"
  shows "snd (handleBorrow e snapshot uid bid db) = db"
  using assms
  by (auto simp: handleBorrow_def runTransaction_def Let_def split: if_splits option.splits)

lemma handleBorrow_Committed:
  assumes "fst (handleBorrow e snapshot uid bid db) = Committed"
  shows "\<exists>sb b. map_of snapshot bid = Some sb \<and> 1 \<le> availableCopies sb
           \<and> map_of (books db) bid = Some b
           \<and> snd (handleBorrow e snapshot uid bid db)
               = db\<lparr>books := modifyDoc bid (\<lambda>x. x\<lparr>availableCopies := availableCopies b - 1\<rparr>)
                                (books db),
                    transactions := t_set (autoId e) (newTxn e uid bid) (transactions db)\<rparr>"
  using assms
  by (auto simp: handleBorrow_def runTransaction_def borrowTransaction_def t_get_def Let_def
      t_update_def newTxn_def split: if_splits option.splits)

lemma handleReturn_not_Committed:
  assumes "fst (handleReturn e row db) \<noteq> Committed"
  shows "snd (handleReturn e row db) = db"
  using assms
  by (auto simp: handleReturn_def runTransaction_def Let_def split: if_splits option.splits prod.splits)

lemma handleReturn_open:
  assumes "returnDate t = None" and "map_of (books db) (bookId t) = Some b"
    and "map_of (transactions db) k = Some t0"
  shows "handleReturn e (k, t) db =
     (Committed,
      db\<lparr>books := modifyDoc (bookId t) (\<lambda>x. x\<lparr>availableCopies := availableCopies b + 1\<rparr>)
                     (books db),
         transactions := modifyDoc k
            (\<lambda>x. x\<lparr>returnDate := Some (commitTime e),
                  fineAmount := calculateFine (dueDate t) (Some (returnNow e))\<rparr>)
            (transactions db)\<rparr>)"
  using assms
  by (simp add: handleReturn_def runTransaction_def returnTransaction_def t_get_def t_update_def
      Let_def)

lemma handleReturn_closed_row:
  assumes "returnDate t \<noteq> None"
  shows "handleReturn e (k, t) db = (AlreadyReturned, db)"
  using assms by (simp add: handleReturn_def)

lemma handleReturn_no_book:
  assumes "map_of (books db) (bookId t) = None"
  shows "snd (handleReturn e (k, t) db) = db"
  using assms
  by (simp add: handleReturn_def runTransaction_def returnTransaction_def t_get_def Let_def)

subsection \<open>Facts about open transactions\<close>

lemma openCount_append:
  "openCount (ts @ [(k, t)]) i
     = openCount ts i + (if bookId t = i \<and> returnDate t = None then 1 else 0)"
  by (simp add: openCount_def)

lemma openCount_Cons:
  "openCount ((k, t) # ts) i
     = (if bookId t = i \<and> returnDate t = None then 1 else 0) + openCount ts i"
  by (simp add: openCount_def)

lemma openCount_close:
  assumes "distinct (map fst ts)" and "map_of ts k = Some t" and "returnDate t = None"
  shows "openCount (modifyDoc k (\<lambda>x. x\<lparr>returnDate := Some r, fineAmount := f\<rparr>) ts) i + 
           (if bookId t = i then 1 else 0) = openCount ts i"
  using assms
proof (induction ts)
  case Nil
  then show ?case by simp
next
  case (Cons a ts)
  obtain j d where a: "a = (j, d)" by (cases a)
  show ?case
  proof (cases "j = k")
    case True
    with Cons.prems a have d: "d = t" and nk: "k \<notin> fst ` set ts" by auto
    show ?thesis
      using a True d Cons.prems(3) modifyDoc_absent [OF nk]
      by (simp add: openCount_Cons modifyDoc_Cons)
  next
    case False
    with Cons.prems a have "distinct (map fst ts)" "map_of ts k = Some t" by auto
    from Cons.IH [OF this Cons.prems(3)] show ?thesis
      using a False by (simp add: openCount_Cons modifyDoc_Cons)
  qed
qed

lemma openCount_pos:
  assumes "map_of ts k = Some t" and "returnDate t = None"
  shows "1 \<le> openCount ts (bookId t)"
proof -
  from assms(1) have "(k, t) \<in> set ts" by (rule map_of_SomeD)
  then have "(k, t) \<in> set (filter (\<lambda>(k, x). bookId x = bookId t \<and> returnDate x = None) ts)"
    using assms(2) by simp
  then have "filter (\<lambda>(k, x). bookId x = bookId t \<and> returnDate x = None) ts \<noteq> []"
    by (metis empty_iff empty_set)
  then show ?thesis
    unfolding openCount_def by (simp add: Suc_le_eq)
qed

subsection \<open>Preservation of the invariants\<close>

lemma newTxn_simps: "bookId (newTxn e uid bid) = bid" "returnDate (newTxn e uid bid) = None"
  "fineAmount (newTxn e uid bid) = 0"
  by (simp_all add: newTxn_def)

lemma list_all_modifyDoc_I:
  assumes "\<And>i d. (i, d) \<in> set c \<Longrightarrow> P (i, if i = k then f d else d)"
  shows "list_all P (modifyDoc k f c)"
proof -
  have "P (case x of (i, d) \<Rightarrow> if i = k then (i, f d) else (i, d))" if "x \<in> set c" for x
    using assms [of "fst x" "snd x"] that by (cases x) (auto split: if_splits)
  then show ?thesis
    unfolding modifyDoc_def list_all_iff by auto
qed

lemma borrow_preserves:
  assumes u: "uniqueIds db" and i1: "I1 db" and i2: "I2 db"
    and fresh: "autoId e \<notin> fst ` set (transactions db)"
  shows "uniqueIds (apply_op (Borrow e uid bid) db)
     \<and> I1 (apply_op (Borrow e uid bid) db) \<and> I2 (apply_op (Borrow e uid bid) db)"
proof (cases "fst (handleBorrow e (books db) uid bid db) = Committed")
  case False
  then show ?thesis
    using handleBorrow_not_Committed [OF False] u i1 i2 by simp
next
  case True
  from handleBorrow_Committed [OF True] obtain b where
    b: "map_of (books db) bid = Some b" and avail: "1 \<le> availableCopies b"
    and db': "apply_op (Borrow e uid bid) db
               = db\<lparr>books := modifyDoc bid (\<lambda>x. x\<lparr>availableCopies := availableCopies b - 1\<rparr>)
                                (books db),
                    transactions := transactions db @ [(autoId e, newTxn e uid bid)]\<rparr>"
    using t_set_fresh [OF fresh] by auto
  have only: "d = b" if "(bid, d) \<in> set (books db)" for d
    using that u b by (simp add: uniqueIds_def)
  have U: "uniqueIds (apply_op (Borrow e uid bid) db)"
    using u fresh unfolding db' uniqueIds_def by (simp add: keys_modifyDoc)
  have A: "I1 (apply_op (Borrow e uid bid) db)"
    using i1 avail only unfolding db' I1_def
    by (simp add: list_all_modifyDoc) (auto simp: list_all_iff)
  have B: "I2 (apply_op (Borrow e uid bid) db)"
    using i2 only unfolding db' I2_def
    by (simp add: list_all_modifyDoc openCount_append newTxn_simps) (auto simp: list_all_iff)
  from U A B show ?thesis by blast
qed

lemma return_preserves:
  assumes u: "uniqueIds db" and i1: "I1 db" and i2: "I2 db"
  shows "uniqueIds (apply_op (Return e k) db)
     \<and> I1 (apply_op (Return e k) db) \<and> I2 (apply_op (Return e k) db)"
proof (cases "map_of (transactions db) k")
  case None
  then show ?thesis using u i1 i2 by simp
next
  case (Some t)
  show ?thesis
  proof (cases "returnDate t = None \<and> map_of (books db) (bookId t) \<noteq> None")
    case False
    then have "snd (handleReturn e (k, t) db) = db"
      using handleReturn_no_book [of db t e k]
      by (cases "returnDate t") (auto simp: handleReturn_def)
    then show ?thesis using Some u i1 i2 by simp
  next
    case True
    then obtain b where b: "map_of (books db) (bookId t) = Some b" and op: "returnDate t = None"
      by auto
    define f where "f = calculateFine (dueDate t) (Some (returnNow e))"
    have db': "apply_op (Return e k) db
        = db\<lparr>books := modifyDoc (bookId t) (\<lambda>x. x\<lparr>availableCopies := availableCopies b + 1\<rparr>)
                     (books db),
              transactions := modifyDoc k
                 (\<lambda>x. x\<lparr>returnDate := Some (commitTime e), fineAmount := f\<rparr>)
                 (transactions db)\<rparr>"
      using Some handleReturn_open [OF op b Some, of e] by (simp add: f_def)
    have only: "d = b" if "(bookId t, d) \<in> set (books db)" for d
      using that u b by (simp add: uniqueIds_def)
    have dt: "distinct (map fst (transactions db))"
      using u by (simp add: uniqueIds_def)
    have cnt: "openCount (modifyDoc k
                 (\<lambda>x. x\<lparr>returnDate := Some (commitTime e), fineAmount := f\<rparr>)
                 (transactions db)) i + (if bookId t = i then 1 else 0)
                = openCount (transactions db) i" for i
      by (rule openCount_close [OF dt Some op])
    have pos: "1 \<le> openCount (transactions db) (bookId t)"
      by (rule openCount_pos [OF Some op])
    have inb: "(bookId t, b) \<in> set (books db)"
      using b by (rule map_of_SomeD)
    have room: "availableCopies b + 1 \<le> totalCopies b"
      using i2 inb pos unfolding I2_def by (auto simp: list_all_iff)
    have low: "0 \<le> availableCopies b"
      using i1 inb unfolding I1_def by (auto simp: list_all_iff)
    have U: "uniqueIds (apply_op (Return e k) db)"
      using u unfolding db' uniqueIds_def by (simp add: keys_modifyDoc)
    have A: "I1 (apply_op (Return e k) db)"
      using i1 room low only unfolding db' I1_def
      by (simp add: list_all_modifyDoc) (auto simp: list_all_iff)
    have B: "I2 (apply_op (Return e k) db)"
      unfolding db' I2_def
    proof (simp, rule list_all_modifyDoc_I)
      fix i d assume x: "(i, d) \<in> set (books db)"
      have old: "totalCopies d - availableCopies d = int (openCount (transactions db) i)"
        using i2 x unfolding I2_def by (auto simp: list_all_iff)
      show "case (i, if i = bookId t then d\<lparr>availableCopies := availableCopies b + 1\<rparr> else d) of
              (i, b) \<Rightarrow> totalCopies b - availableCopies b
                   = int (openCount (modifyDoc k
                       (\<lambda>x. x\<lparr>returnDate := Some (commitTime e), fineAmount := f\<rparr>)
                       (transactions db)) i)"
      proof (cases "i = bookId t")
        case True
        then have "d = b" using only x by simp
        then show ?thesis using True old cnt [of i] by simp
      next
        case False
        then show ?thesis using old cnt [of i] by simp
      qed
    qed
    from U A B show ?thesis by blast
  qed
qed

lemma keys_apply_op:
  "fst ` set (transactions (apply_op x db)) \<subseteq> fst ` set (transactions db) \<union> set (newIds [x])"
proof (cases x)
  case (Borrow e uid bid)
  show ?thesis
  proof (cases "fst (handleBorrow e (books db) uid bid db) = Committed")
    case False
    then show ?thesis
      using handleBorrow_not_Committed [OF False] Borrow by auto
  next
    case True
    from handleBorrow_Committed [OF True] obtain sb b where
      "map_of (books db) bid = Some sb" and "map_of (books db) bid = Some b" and
      "snd (handleBorrow e (books db) uid bid db)
               = db\<lparr>books := modifyDoc bid (\<lambda>x. x\<lparr>availableCopies := availableCopies b - 1\<rparr>)
                                (books db),
                    transactions := t_set (autoId e) (newTxn e uid bid) (transactions db)\<rparr>"
      by blast
    then show ?thesis
      using Borrow
      by (cases "map_of (transactions db) (autoId e)")
        (auto simp: t_set_def set_keys_modifyDoc)
  qed
next
  case (Return e k)
  show ?thesis
  proof (cases "map_of (transactions db) k")
    case None
    then show ?thesis using Return by simp
  next
    case (Some t)
    show ?thesis
    proof (cases "fst (handleReturn e (k, t) db) = Committed")
      case False
      then show ?thesis
        using handleReturn_not_Committed [OF False] Return Some by simp
    next
      case True
      then obtain b where "returnDate t = None" "map_of (books db) (bookId t) = Some b"
        by (auto simp: handleReturn_def runTransaction_def returnTransaction_def t_get_def
            Let_def split: if_splits option.splits)
      from handleReturn_open [OF this Some, of e] show ?thesis
        using Return Some by (simp add: set_keys_modifyDoc)
    qed
  qed
qed

lemma run_preserves:
  assumes "uniqueIds db" and "I1 db" and "I2 db"
    and "distinct (newIds ops)" and "set (newIds ops) \<inter> fst ` set (transactions db) = {}"
  shows "uniqueIds (run ops db) \<and> I1 (run ops db) \<and> I2 (run ops db)"
  using assms
proof (induction ops arbitrary: db)
  case Nil
  then show ?case by simp
next
  case (Cons x ops)
  have step: "uniqueIds (apply_op x db) \<and> I1 (apply_op x db) \<and> I2 (apply_op x db)"
  proof (cases x)
    case (Borrow e uid bid)
    with Cons.prems(5) have "autoId e \<notin> fst ` set (transactions db)" by auto
    from borrow_preserves [OF Cons.prems(1-3) this] show ?thesis using Borrow by simp
  next
    case (Return e k)
    from return_preserves [OF Cons.prems(1-3)] show ?thesis using Return by simp
  qed
  have d: "distinct (newIds ops)"
    using Cons.prems(4) by (cases x) auto
  have sub: "fst ` set (transactions (apply_op x db))
               \<subseteq> fst ` set (transactions db) \<union> set (newIds [x])"
    by (rule keys_apply_op)
  have "set (newIds ops) \<inter> set (newIds [x]) = {}"
    using Cons.prems(4) by (cases x) auto
  moreover have "set (newIds ops) \<subseteq> set (newIds (x # ops))"
    by (cases x) auto
  ultimately have "set (newIds ops) \<inter> fst ` set (transactions (apply_op x db)) = {}"
    using sub Cons.prems(5) by blast
  with Cons.IH [of "apply_op x db"] step d show ?case by simp
qed

lemma handleBorrow_commit:
  assumes "uid \<noteq> []" and "bid \<noteq> []" and "map_of snapshot bid = Some sb"
    and "1 \<le> availableCopies sb" and "map_of (books db) bid = Some b"
  shows "handleBorrow e snapshot uid bid db =
     (Committed,
      db\<lparr>books := modifyDoc bid (\<lambda>x. x\<lparr>availableCopies := availableCopies b - 1\<rparr>) (books db),
         transactions := t_set (autoId e) (newTxn e uid bid) (transactions db)\<rparr>)"
  using assms
  by (simp add: handleBorrow_def runTransaction_def borrowTransaction_def t_get_def t_update_def
      Let_def newTxn_def)

lemma newTxn_same_reading:
  assumes "dueNow e = borrowNow e"
  shows "newTxn e uid bid =
     \<lparr>bookId = bid, userId = uid, borrowDate = Some (serverTime e),
      dueDate = Some (UTC (clientZone e) (LocalTime (clientZone e) (borrowNow e) + 7 * msPerDay)),
      returnDate = None, fineAmount = 0\<rparr>"
  using assms by (simp add: newTxn_def setDate_getDate BORROW_DAYS_def)

lemma handleBorrow_unavailable_gen:
  assumes "uid \<noteq> []" and "bid \<noteq> []"
    and "map_of snapshot bid = Some b" and "availableCopies b < 1"
  shows "handleBorrow e snapshot uid bid db = (Unavailable, db)"
  using assms by (simp add: handleBorrow_def)

subsection \<open>The examples, evaluated\<close>

lemma newTxn_env1: "newTxn env1 ''u1'' ''b1'' = loan1"
  by (simp add: newTxn_same_reading env1_def loan1_def msPerDay_def UTC_def LocalTime_def
      utcZone_def)

lemma borrow_db1: "handleBorrow env1 (books db1) ''u1'' ''b1'' db1 = (Committed, dbOut)"
proof -
  have "handleBorrow env1 (books db1) ''u1'' ''b1'' db1 = (Committed,
      db1\<lparr>books := modifyDoc ''b1'' (\<lambda>x. x\<lparr>availableCopies := availableCopies book1 - 1\<rparr>)
                      (books db1),
          transactions := t_set (autoId env1) (newTxn env1 ''u1'' ''b1'') (transactions db1)\<rparr>)"
    by (rule handleBorrow_commit [where sb = book1]) (simp_all add: db1_def book1_def)
  then show ?thesis
    unfolding newTxn_env1
    by (simp add: db1_def dbOut_def book1_def env1_def modifyDoc_def t_set_def)
qed

lemma stale_borrow_dbOut:
  "handleBorrow env2 (books db1) ''u2'' ''b1'' dbOut =
     (Committed,
      \<lparr>books = [(''b1'', book1\<lparr>availableCopies := - 1\<rparr>)], users = [],
       transactions = [(''t1'', loan1), (''t2'', newTxn env2 ''u2'' ''b1'')]\<rparr>)"
proof -
  have "handleBorrow env2 (books db1) ''u2'' ''b1'' dbOut = (Committed,
      dbOut\<lparr>books := modifyDoc ''b1''
                 (\<lambda>x. x\<lparr>availableCopies := availableCopies (book1\<lparr>availableCopies := 0\<rparr>) - 1\<rparr>)
                 (books dbOut),
          transactions := t_set (autoId env2) (newTxn env2 ''u2'' ''b1'') (transactions dbOut)\<rparr>)"
    by (rule handleBorrow_commit [where sb = book1]) (simp_all add: db1_def dbOut_def book1_def)
  then show ?thesis
    by (simp add: dbOut_def book1_def env2_def modifyDoc_def t_set_def)
qed

lemma fresh_borrow_dbOut:
  "handleBorrow env2 (books dbOut) ''u2'' ''b1'' dbOut = (Unavailable, dbOut)"
  by (rule handleBorrow_unavailable_gen [where b = "book1\<lparr>availableCopies := 0\<rparr>"])
    (simp_all add: dbOut_def)

lemma fine_ret1: "calculateFine (dueDate loan1) (Some (returnNow ret1)) = 1 / 2"
proof -
  have "calculateFine (Some 1705449600000) (Some 1705449660000) = 1 / 2"
    by (rule calculateFine_first_day) (simp_all add: msPerDay_def)
  then show ?thesis
    by (simp add: loan1_def ret1_def)
qed

lemma fine_ret2: "calculateFine (dueDate loan1) (Some (returnNow ret2)) = 1"
proof -
  have "calculateFine (Some 1705449600000) (Some (1705449600000 + 2 * msPerDay)) = of_int 2 / 2"
    by (rule calculateFine_whole_days) simp
  then show ?thesis
    by (simp add: loan1_def ret2_def msPerDay_def)
qed

lemma return_dbOut: "handleReturn ret1 (''t1'', loan1) dbOut = (Committed, dbBack)"
proof -
  have "handleReturn ret1 (''t1'', loan1) dbOut = (Committed,
      dbOut\<lparr>books := modifyDoc (bookId loan1)
                 (\<lambda>x. x\<lparr>availableCopies := availableCopies (book1\<lparr>availableCopies := 0\<rparr>) + 1\<rparr>)
                 (books dbOut),
            transactions := modifyDoc ''t1''
               (\<lambda>x. x\<lparr>returnDate := Some (commitTime ret1),
                     fineAmount := calculateFine (dueDate loan1) (Some (returnNow ret1))\<rparr>)
               (transactions dbOut)\<rparr>)"
    by (rule handleReturn_open [where ?t0.0 = loan1]) (simp_all add: loan1_def dbOut_def)
  then show ?thesis
    unfolding fine_ret1
    by (simp add: dbOut_def dbBack_def book1_def ret1_def modifyDoc_def loan1_def)
qed

lemma stale_return_dbBack:
  "handleReturn ret2 (''t1'', loan1) dbBack =
     (Committed,
      \<lparr>books = [(''b1'', book1\<lparr>availableCopies := 2\<rparr>)], users = [],
       transactions = [(''t1'', loan1\<lparr>returnDate := Some 1705622400250, fineAmount := 1\<rparr>)]\<rparr>)"
proof -
  have "handleReturn ret2 (''t1'', loan1) dbBack = (Committed,
      dbBack\<lparr>books := modifyDoc (bookId loan1)
                 (\<lambda>x. x\<lparr>availableCopies := availableCopies book1 + 1\<rparr>)
                 (books dbBack),
            transactions := modifyDoc ''t1''
               (\<lambda>x. x\<lparr>returnDate := Some (commitTime ret2),
                     fineAmount := calculateFine (dueDate loan1) (Some (returnNow ret2))\<rparr>)
               (transactions dbBack)\<rparr>)"
    by (rule handleReturn_open
          [where ?t0.0 = "loan1\<lparr>returnDate := Some 1705449660250, fineAmount := 1 / 2\<rparr>"])
      (simp_all add: loan1_def dbBack_def)
  then show ?thesis
    unfolding fine_ret2
    by (simp add: dbBack_def book1_def ret2_def modifyDoc_def loan1_def)
qed

lemma return_dbFull:
  "handleReturn ret1 (''t1'', loan1) dbFull =
     (Committed,
      \<lparr>books = [(''b1'', book1\<lparr>availableCopies := 2\<rparr>)], users = [],
       transactions = [(''t1'', loan1\<lparr>returnDate := Some 1705449660250,
                                      fineAmount := 1 / 2\<rparr>)]\<rparr>)"
proof -
  have "handleReturn ret1 (''t1'', loan1) dbFull = (Committed,
      dbFull\<lparr>books := modifyDoc (bookId loan1)
                 (\<lambda>x. x\<lparr>availableCopies := availableCopies book1 + 1\<rparr>)
                 (books dbFull),
            transactions := modifyDoc ''t1''
               (\<lambda>x. x\<lparr>returnDate := Some (commitTime ret1),
                     fineAmount := calculateFine (dueDate loan1) (Some (returnNow ret1))\<rparr>)
               (transactions dbFull)\<rparr>)"
    by (rule handleReturn_open [where ?t0.0 = loan1]) (simp_all add: loan1_def dbFull_def)
  then show ?thesis
    unfolding fine_ret1
    by (simp add: dbFull_def book1_def ret1_def modifyDoc_def loan1_def)
qed

lemma run_ops1: "run ops1 db1 = dbBack"
proof -
  have 1: "apply_op (Borrow env1 ''u1'' ''b1'') db1 = dbOut"
    by (simp add: borrow_db1)
  have 2: "apply_op (Borrow env2 ''u2'' ''b1'') dbOut = dbOut"
    by (simp add: fresh_borrow_dbOut)
  have "map_of (transactions dbOut) ''t1'' = Some loan1"
    by (simp add: dbOut_def)
  then have 3: "apply_op (Return ret1 ''t1'') dbOut = dbBack"
    by (simp add: return_dbOut)
  show ?thesis
    by (simp only: ops1_def run.simps 1 2 3)
qed

lemma db1_invariants: "uniqueIds db1 \<and> I1 db1 \<and> I2 db1"
  by (simp add: uniqueIds_def I1_def I2_def db1_def book1_def openCount_def)

subsection \<open>A fine is recorded on a closed transaction only\<close>

text \<open>
  Both handlers keep the property of the log that the classification of users relies
  on: \<open>handleBorrow\<close> writes a transaction without a fine, \<open>handleReturn\<close> writes a
  fine together with a return date.
\<close>

lemma list_all_t_set:
  assumes "list_all P c" and "P (k, v)"
  shows "list_all P (t_set k v c)"
proof (cases "map_of c k")
  case None
  with assms show ?thesis by (simp add: t_set_def)
next
  case (Some a)
  have "list_all P (modifyDoc k (\<lambda>_. v) c)"
    by (rule list_all_modifyDoc_I) (use assms in \<open>auto simp: list_all_iff\<close>)
  with Some show ?thesis by (simp add: t_set_def)
qed

lemma handleBorrow_fined_closed:
  assumes "list_all (\<lambda>(k, t). fineAmount t > 0 \<longrightarrow> returnDate t \<noteq> None) (transactions db)"
  shows "list_all (\<lambda>(k, t). fineAmount t > 0 \<longrightarrow> returnDate t \<noteq> None)
           (transactions (snd (handleBorrow e snapshot uid bid db)))"
proof (cases "fst (handleBorrow e snapshot uid bid db) = Committed")
  case False
  from handleBorrow_not_Committed [OF False] assms show ?thesis by simp
next
  case True
  from handleBorrow_Committed [OF True] obtain sb b where
    "map_of snapshot bid = Some sb" and "map_of (books db) bid = Some b" and
    eq: "snd (handleBorrow e snapshot uid bid db)
           = db\<lparr>books := modifyDoc bid (\<lambda>x. x\<lparr>availableCopies := availableCopies b - 1\<rparr>)
                            (books db),
                transactions := t_set (autoId e) (newTxn e uid bid) (transactions db)\<rparr>"
    by blast
  show ?thesis
    unfolding eq using assms by (simp add: list_all_t_set newTxn_simps)
qed

lemma handleReturn_fined_closed:
  assumes "list_all (\<lambda>(k, t). fineAmount t > 0 \<longrightarrow> returnDate t \<noteq> None) (transactions db)"
  shows "list_all (\<lambda>(k, t). fineAmount t > 0 \<longrightarrow> returnDate t \<noteq> None)
           (transactions (snd (handleReturn e row db)))"
proof (cases "fst (handleReturn e row db) = Committed")
  case False
  from handleReturn_not_Committed [OF False] assms show ?thesis by simp
next
  case True
  obtain k t where row: "row = (k, t)" by (cases row)
  from True row obtain b t0 where "returnDate t = None" "map_of (books db) (bookId t) = Some b"
    "map_of (transactions db) k = Some t0"
    by (auto simp: handleReturn_def runTransaction_def returnTransaction_def t_get_def
        t_update_def Let_def split: if_splits option.splits)
  from handleReturn_open [OF this, of e] show ?thesis
    unfolding row
    by (simp, intro list_all_modifyDoc_I) (use assms in \<open>auto simp: list_all_iff\<close>)
qed

subsection \<open>Facts about counting and sorting\<close>

lemma map_of_bumpOwn:
  "map_of (bumpOwn k c) j
     = (if j = k then Some (case map_of c k of None \<Rightarrow> initialCount k | Some v \<Rightarrow> increment v)
        else map_of c j)"
  by (induction c) auto

lemma keys_bumpOwn: "set (map fst (bumpOwn k c)) = insert k (set (map fst c))"
proof (induction c)
  case Nil
  then show ?case by simp
next
  case (Cons a c)
  obtain k' v where a: "a = (k', v)" by (cases a)
  show ?case
  proof (cases "k' = k")
    case True
    then show ?thesis using a by simp
  next
    case False
    have "set (map fst (bumpOwn k (a # c))) = insert k' (set (map fst (bumpOwn k c)))"
      using a False by simp
    also have "\<dots> = insert k' (insert k (set (map fst c)))"
      by (simp only: Cons.IH)
    also have "\<dots> = insert k (set (map fst (a # c)))"
      using a by auto
    finally show ?thesis .
  qed
qed

lemma keys_bumpOwn_image: "fst ` set (bumpOwn k c) = insert k (fst ` set c)"
  using keys_bumpOwn [of k c] by simp

lemma distinct_bumpOwn: "distinct (map fst c) \<Longrightarrow> distinct (map fst (bumpOwn k c))"
proof (induction c)
  case Nil
  then show ?case by simp
next
  case (Cons a c)
  obtain k' v where a: "a = (k', v)" by (cases a)
  show ?case
  proof (cases "k' = k")
    case True
    with Cons.prems a show ?thesis by simp
  next
    case False
    have "k' \<notin> fst ` set (bumpOwn k c)"
      using Cons.prems a False by (simp add: keys_bumpOwn_image)
    with Cons a False show ?thesis by simp
  qed
qed

lemma distinct_bump: "distinct (map fst c) \<Longrightarrow> distinct (map fst (bump k c))"
  by (simp add: bump_def distinct_bumpOwn)

lemma map_of_bump:
  "map_of (bump k c) j
     = (if j = k \<and> k \<noteq> ''__proto__''
        then Some (case map_of c k of None \<Rightarrow> initialCount k | Some v \<Rightarrow> increment v)
        else map_of c j)"
  by (simp add: bump_def map_of_bumpOwn)

lemma functionText_not_Nil: "functionText f @ s \<noteq> []"
  by (simp add: functionText_def)

lemma countValue_Suc:
  assumes "k \<noteq> ''__proto__''"
  shows "Some (case countValue k n of None \<Rightarrow> initialCount k | Some v \<Rightarrow> increment v)
     = countValue k (Suc n)"
proof (cases "n = 0")
  case True
  then show ?thesis
    using assms by (simp add: countValue_def initialCount_def split: option.splits)
next
  case False
  have "replicate n (CHR ''1'') @ ''1'' = replicate (Suc n) (CHR ''1'')"
    by (simp add: replicate_append_same)
  then show ?thesis
    using assms False
    by (auto simp: countValue_def functionText_not_Nil split: option.splits)
qed

text \<open>Counting with a key that may be missing: the shape of the three counting passes.\<close>

lemma foldl_bump:
  "distinct (map fst (foldl (\<lambda>c x. case key x of None \<Rightarrow> c | Some k \<Rightarrow> bump k c) [] xs))
   \<and> map_of (foldl (\<lambda>c x. case key x of None \<Rightarrow> c | Some k \<Rightarrow> bump k c) [] xs) j
       = countValue j (length (filter (\<lambda>x. key x = Some j) xs))"
proof (induction xs rule: rev_induct)
  case Nil
  then show ?case by (simp add: countValue_def)
next
  case (snoc x xs)
  define c where "c = foldl (\<lambda>c x. case key x of None \<Rightarrow> c | Some k \<Rightarrow> bump k c) [] xs"
  have d: "distinct (map fst c)"
    and m: "map_of c j = countValue j (length (filter (\<lambda>x. key x = Some j) xs))"
    using snoc by (simp_all add: c_def)
  show ?case
  proof (cases "key x")
    case None
    with d m show ?thesis by (simp add: c_def)
  next
    case (Some k)
    have step: "foldl (\<lambda>c x. case key x of None \<Rightarrow> c | Some k \<Rightarrow> bump k c) [] (xs @ [x])
        = bump k c"
      using Some by (simp add: c_def)
    show ?thesis
    proof (cases "j = k")
      case False
      with Some d m show ?thesis
        unfolding step by (simp add: distinct_bump map_of_bump)
    next
      case True
      show ?thesis
      proof (cases "k = ''__proto__''")
        case True
        with \<open>j = k\<close> Some d m show ?thesis
          unfolding step by (simp add: bump_def countValue_def)
      next
        case False
        have "map_of (bump k c) k
            = Some (case map_of c k of None \<Rightarrow> initialCount k | Some v \<Rightarrow> increment v)"
          using False by (simp add: map_of_bump)
        also have "\<dots> = countValue k (Suc (length (filter (\<lambda>x. key x = Some k) xs)))"
          using m \<open>j = k\<close> countValue_Suc [OF False] by simp
        finally show ?thesis
          using \<open>j = k\<close> Some d unfolding step by (simp add: distinct_bump)
      qed
    qed
  qed
qed

lemma set_insertWith: "set (insertWith cmp x xs) = insert x (set xs)"
  by (induction xs) auto

lemma set_sortWith: "set (sortWith cmp xs) = set xs"
  unfolding sortWith_def by (induction xs) (auto simp: set_insertWith)







lemma objectEntries_plain:
  assumes "\<forall>(k, v)\<in>set obj. \<not> isArrayIndex k"
  shows "objectEntries obj = obj"
proof -
  have "filter (\<lambda>(k, v). isArrayIndex k) obj = []"
    using assms by (auto simp: filter_empty_conv)
  moreover have "filter (\<lambda>(k, v). \<not> isArrayIndex k) obj = obj"
    using assms by (auto simp: filter_id_conv)
  ultimately show ?thesis
    by (simp add: objectEntries_def)
qed






subsection \<open>Facts about the reports\<close>
















lemma userLateCounts_foldl:
  "userLateCounts ts = foldl (\<lambda>c x. case finedUser x of None \<Rightarrow> c | Some k \<Rightarrow> bump k c) [] ts"
proof -
  have "(\<lambda>counts (k, t). if fineAmount t > 0 then bump (userId t) counts else counts)
      = (\<lambda>c x. case finedUser x of None \<Rightarrow> c | Some k \<Rightarrow> bump k c)"
    by (auto simp: fun_eq_iff finedUser_def)
  then show ?thesis
    by (simp add: userLateCounts_def)
qed

lemma map_of_userLateCounts: "map_of (userLateCounts ts) j = countValue j (finedCount ts j)"
proof -
  have "(\<lambda>x. finedUser x = Some j) = (\<lambda>(k, t). userId t = j \<and> fineAmount t > 0)"
    by (auto simp: fun_eq_iff finedUser_def)
  then show ?thesis
    by (simp add: userLateCounts_foldl foldl_bump finedCount_def)
qed

lemma regularDefaulter_plain:
  assumes "plainKey (fst row)"
  shows "regularDefaulter (userLateCounts ts) row \<longleftrightarrow> 2 \<le> finedCount ts (fst row)"
  using assms
  by (simp add: regularDefaulter_def map_of_userLateCounts countValue_def plainKey_def
      MIN_LATE_COUNT_FOR_DEFAULTER_def)



lemma defaulterIds:
  "set (map fst (defaultersReport us c)) = {k. \<exists>u. (k, u) \<in> set us \<and> regularDefaulter c (k, u)}"
  by (auto simp: defaultersReport_def set_sortWith rev_image_eqI image_iff)



subsection \<open>Facts about the defaulter flags\<close>

lemma reconcileUser_map:
  "reconcileUser D c (k, u)
     = map (\<lambda>(i, x). (i, if i = k \<and> isDefaulter u \<noteq> (k \<in> D)
                          then x\<lparr>isDefaulter := k \<in> D\<rparr> else x)) c"
proof (cases "isDefaulter u = (k \<in> D)")
  case True
  then show ?thesis
    by (simp add: reconcileUser_def Let_def)
next
  case False
  have "reconcileUser D c (k, u) = modifyDoc k (\<lambda>x. x\<lparr>isDefaulter := k \<in> D\<rparr>) c"
  proof (cases "map_of c k")
    case None
    then have "k \<notin> fst ` set c"
      by (simp add: map_of_eq_None_iff)
    then have "modifyDoc k (\<lambda>x. x\<lparr>isDefaulter := k \<in> D\<rparr>) c = c"
      by (rule modifyDoc_absent)
    with None False show ?thesis
      by (simp add: reconcileUser_def updateDoc_def t_update_def Let_def)
  next
    case (Some x)
    with False show ?thesis
      by (simp add: reconcileUser_def updateDoc_def t_update_def Let_def)
  qed
  also have "\<dots> = map (\<lambda>(i, x). (i, if i = k \<and> isDefaulter u \<noteq> (k \<in> D)
                          then x\<lparr>isDefaulter := k \<in> D\<rparr> else x)) c"
    unfolding modifyDoc_def using False by (intro map_cong refl) (auto split: if_splits)
  finally show ?thesis .
qed

lemma reconcile_fold:
  assumes "distinct (map fst xs)"
  shows "foldl (reconcileUser D) c xs
     = map (\<lambda>(i, x). (i, case map_of xs i of
                          None \<Rightarrow> x
                        | Some u \<Rightarrow> if isDefaulter u = (i \<in> D) then x
                                     else x\<lparr>isDefaulter := i \<in> D\<rparr>)) c"
  using assms
proof (induction xs arbitrary: c)
  case Nil
  show ?case
    by simp
next
  case (Cons row xs)
  obtain k u where row: "row = (k, u)" by (cases row)
  have d: "distinct (map fst xs)" and nk: "map_of xs k = None"
    using Cons.prems row by (simp_all add: map_of_eq_None_iff)
  have "foldl (reconcileUser D) c (row # xs)
      = foldl (reconcileUser D) (reconcileUser D c (k, u)) xs"
    by (simp add: row)
  also have "\<dots> = map (\<lambda>(i, x). (i, case map_of xs i of
                          None \<Rightarrow> x
                        | Some u \<Rightarrow> if isDefaulter u = (i \<in> D) then x
                                     else x\<lparr>isDefaulter := i \<in> D\<rparr>))
                      (reconcileUser D c (k, u))"
    by (rule Cons.IH [OF d])
  also have "\<dots> = map (\<lambda>(i, x). (i, case map_of (row # xs) i of
                          None \<Rightarrow> x
                        | Some u \<Rightarrow> if isDefaulter u = (i \<in> D) then x
                                     else x\<lparr>isDefaulter := i \<in> D\<rparr>)) c"
    unfolding reconcileUser_map map_map row
    by (intro map_cong refl) (auto simp: nk)
  finally show ?case .
qed

lemma defaulterEffect_eq:
  assumes "distinct (map fst us)" and "\<forall>(k, u)\<in>set us. plainKey k"
  shows "defaulterEffect us ts (Some st) = Some (reconciled ts us st)"
proof -
  define report where "report = defaultersReport us (userLateCounts ts)"
  define D where "D = set (map fst report)"
  have D: "k \<in> D \<longleftrightarrow> 2 \<le> finedCount ts k" if "map_of us k = Some u" for k u
  proof -
    from that have m: "(k, u) \<in> set us"
      by (rule map_of_SomeD)
    with assms(2) have p: "plainKey k"
      by auto
    have "k \<in> D \<longleftrightarrow> (\<exists>u'. (k, u') \<in> set us \<and> regularDefaulter (userLateCounts ts) (k, u'))"
      unfolding D_def report_def defaulterIds by simp
    also have "\<dots> \<longleftrightarrow> 2 \<le> finedCount ts k"
      using m regularDefaulter_plain [of "(k, u')" ts for u'] p by auto
    finally show ?thesis .
  qed
  have fold: "foldl (reconcileUser D) st us = reconciled ts us st"
    unfolding reconcile_fold [OF assms(1)] reconciled_def
    by (intro map_cong refl) (auto simp: D split: option.splits)
  show ?thesis
  proof (cases "report \<noteq> [] \<or> list_ex (\<lambda>(k, u). isDefaulter u) us")
    case True
    then show ?thesis
      using fold
      by (simp add: defaulterEffect_def updateDefaulterStatus_def Let_def report_def D_def)
  next
    case False
    then have empty: "D = {}" and none: "\<forall>(k, u)\<in>set us. \<not> isDefaulter u"
      by (auto simp: list_ex_iff D_def)
    have "foldl (reconcileUser D) st us = st"
      unfolding reconcile_fold [OF assms(1)] empty
    proof (induction st)
      case Nil
      show ?case by simp
    next
      case (Cons x st)
      obtain i y where x: "x = (i, y)" by (cases x)
      have "isDefaulter u = False" if "map_of us i = Some u" for u
        using none map_of_SomeD [OF that] by auto
      then show ?case
        using Cons by (auto simp: x split: option.splits)
    qed
    then have e: "st = reconciled ts us st"
      using fold by simp
    have r: "defaulterEffect us ts (Some st) = Some st"
      using False by (simp add: defaulterEffect_def Let_def report_def)
    show ?thesis
      by (rule trans [OF r]) (rule arg_cong [where f = Some], rule e)
  qed
qed

lemma keys_reconciled: "map fst (reconciled ts us st) = map fst st"
  unfolding reconciled_def by (induction st) auto

lemma reconciled_current:
  assumes "distinct (map fst us)"
  shows "reconciled ts us us = flagged ts us"
  unfolding reconciled_def flagged_def
proof (intro map_cong refl)
  fix x assume x: "x \<in> set us"
  obtain k u where ku: "x = (k, u)" by (cases x)
  have "map_of us k = Some u"
    using assms x ku by simp
  then show "(case x of (k, x) \<Rightarrow> (k, case map_of us k of
                         None \<Rightarrow> x
                       | Some u \<Rightarrow>
                           if isDefaulter u = (2 \<le> finedCount ts k) then x
                           else x\<lparr>isDefaulter := 2 \<le> finedCount ts k\<rparr>))
       = (case x of (k, u) \<Rightarrow> (k, u\<lparr>isDefaulter := 2 \<le> finedCount ts k\<rparr>))"
    by (auto simp: ku)
qed

lemma keys_flagged: "map fst (flagged ts us) = map fst us"
  unfolding flagged_def by (induction us) auto

lemma flagged_twice: "flagged ts' (flagged ts us) = flagged ts' us"
  unfolding flagged_def by (induction us) auto

lemma flags_flagged: "\<forall>(k, u)\<in>set (flagged ts us). isDefaulter u \<longleftrightarrow> 2 \<le> finedCount ts k"
  by (auto simp: flagged_def)

lemma finedCount_closed:
  assumes "\<forall>(k, t)\<in>set ts. fineAmount t > 0 \<longrightarrow> returnDate t \<noteq> None"
  shows "finedCount ts j = lateCount ts j"
proof -
  have "filter (\<lambda>(k, t). userId t = j \<and> fineAmount t > 0) ts
      = filter (\<lambda>(k, t). userId t = j \<and> returnDate t \<noteq> None \<and> fineAmount t > 0) ts"
    by (rule filter_cong [OF refl]) (use assms in auto)
  then show ?thesis
    by (simp add: finedCount_def lateCount_def)
qed

lemma flagged_closed:
  assumes "\<forall>(k, t)\<in>set ts. fineAmount t > 0 \<longrightarrow> returnDate t \<noteq> None"
  shows "flagged ts us = classified ts us"
  by (simp add: flagged_def classified_def finedCount_closed [OF assms])

subsection \<open>The example reports, evaluated\<close>





lemma getMonthYear_examples:
  "getMonthYear utcZone 1704844800250 = ''2024-01''"
  "getMonthYear utcZone 1706745600000 = ''2024-02''"
  by code_simp+

lemma localeCompare_example: "localeCompare ''2024-02'' ''2024-01'' = 1"
  by code_simp



lemma flagged_examples:
  "flagged exLog exUsers
     = [(''u1'', \<lparr>name = ''Ann'', role = Student, isDefaulter = True\<rparr>),
        (''u2'', \<lparr>name = ''Bob'', role = Staff, isDefaulter = False\<rparr>)]"
  "flagged exLogCorrected exUsers
     = [(''u1'', \<lparr>name = ''Ann'', role = Student, isDefaulter = False\<rparr>),
        (''u2'', \<lparr>name = ''Bob'', role = Staff, isDefaulter = False\<rparr>)]"
  "flagged exLogOpenFine exUsers
     = [(''u1'', \<lparr>name = ''Ann'', role = Student, isDefaulter = True\<rparr>),
        (''u2'', \<lparr>name = ''Bob'', role = Staff, isDefaulter = False\<rparr>)]"
  by code_simp+

lemma reconciled_stale_example:
  "reconciled exLogCorrected exUsers (flagged exLog exUsers)
     = [(''u1'', \<lparr>name = ''Ann'', role = Student, isDefaulter = True\<rparr>),
        (''u2'', \<lparr>name = ''Bob'', role = Staff, isDefaulter = False\<rparr>)]"
  by code_simp

lemma lateCount_examples:
  "lateCount exLog ''u1'' = 2" "lateCount exLogCorrected ''u1'' = 1"
  "lateCount exLogOpenFine ''u1'' = 1"
  by code_simp+

lemma finedCount_examples:
  "finedCount exLog ''u1'' = 2" "finedCount exLogCorrected ''u1'' = 1"
  "finedCount exLogOpenFine ''u1'' = 2"
  by code_simp+

lemma exLog_fined_closed:
  "list_all (\<lambda>(k, t). fineAmount t > 0 \<longrightarrow> returnDate t \<noteq> None) exLog"
  "list_all (\<lambda>(k, t). fineAmount t > 0 \<longrightarrow> returnDate t \<noteq> None) exLogCorrected"
  by code_simp+

lemma exUsers_plain:
  "distinct (map fst exUsers)" "list_all (\<lambda>(k, u). plainKey k) exUsers"
  by code_simp+

lemma defaulterEffect_stale_example:
  "defaulterEffect exUsers exLogCorrected (Some (flagged exLog exUsers))
     = Some [(''u1'', \<lparr>name = ''Ann'', role = Student, isDefaulter = True\<rparr>),
             (''u2'', \<lparr>name = ''Bob'', role = Staff, isDefaulter = False\<rparr>)]"
  by code_simp

lemma defaulterEffect_open_example:
  "defaulterEffect exUsers exLogOpenFine (Some exUsers)
     = Some [(''u1'', \<lparr>name = ''Ann'', role = Student, isDefaulter = True\<rparr>),
             (''u2'', \<lparr>name = ''Bob'', role = Staff, isDefaulter = False\<rparr>)]"
  by code_simp

section \<open>The claims\<close>

text \<open>
  Claim C5. For two dates that are present, \<open>calculateFine\<close> is \<open>0\<close> when the return is
  not after the due instant, and otherwise it is the number of days late, rounded up
  to whole days, times the rate of one half, rounded to two decimals. Any return within
  the first day after the due instant costs one half (so one minute late is a full
  day), one day late costs \<open>0.50\<close> and ten days late cost \<open>5.00\<close>.
\<close>

theorem calculateFine_spec:
  "(ret \<le> due \<longrightarrow> calculateFine (Some due) (Some ret) = 0)
   \<and> (due < ret \<longrightarrow>
        calculateFine (Some due) (Some ret)
          = round2 (of_int \<lceil>(of_int (ret - due) :: rat) / of_int msPerDay\<rceil> * (1 / 2)))
   \<and> (due < ret \<and> ret \<le> due + msPerDay \<longrightarrow> calculateFine (Some due) (Some ret) = 1 / 2)
   \<and> calculateFine (Some due) (Some (due + 60 * 1000)) = 1 / 2
   \<and> calculateFine (Some due) (Some (due + msPerDay)) = 1 / 2
   \<and> calculateFine (Some due) (Some (due + 10 * msPerDay)) = 5"
proof -
  have late: "calculateFine (Some due) (Some ret)
      = round2 (of_int \<lceil>(of_int (ret - due) :: rat) / of_int msPerDay\<rceil> * (1 / 2))"
    if "due < ret"
    using calculateFine_late [OF that] by (simp only: round2_half_days ceiling_days)
  have minute: "calculateFine (Some due) (Some (due + 60 * 1000)) = 1 / 2"
    by (rule calculateFine_first_day) (simp_all add: msPerDay_def)
  have one: "calculateFine (Some due) (Some (due + msPerDay)) = 1 / 2"
    by (rule calculateFine_first_day) (simp_all add: msPerDay_def)
  have ten: "calculateFine (Some due) (Some (due + 10 * msPerDay)) = 5"
    using calculateFine_whole_days [of 10 due] by simp
  show ?thesis
    using late minute one ten calculateFine_on_time calculateFine_first_day by blast
qed

theorem calculateFine_spec_witness:
  "(1704931200000 :: int) < 1704931260000
   \<and> calculateFine (Some 1704931200000) (Some 1704931260000) = 1 / 2
   \<and> calculateFine (Some 1704931200000) (Some 1704844800000) = 0"
proof -
  have late: "(1704931200000 :: int) < 1704931260000
      \<and> 1704931260000 \<le> 1704931200000 + msPerDay"
    by (simp add: msPerDay_def)
  have early: "(1704844800000 :: int) \<le> 1704931200000"
    by simp
  from calculateFine_spec [of 1704931260000 1704931200000] late
  have "calculateFine (Some 1704931200000) (Some 1704931260000) = 1 / 2"
    by blast
  moreover from calculateFine_spec [of 1704844800000 1704931200000] early
  have "calculateFine (Some 1704931200000) (Some 1704844800000) = 0"
    by blast
  ultimately show ?thesis
    by simp
qed

text \<open>
  Claim C10. When the due date or the return date is \<^verbatim>\<open>null\<close>, \<open>calculateFine\<close>
  returns \<open>0\<close>; no input makes it fail.
\<close>

theorem calculateFine_null:
  "calculateFine None ret = 0 \<and> calculateFine due None = 0"
  by (simp add: calculateFine_def split: option.split)

text \<open>
  Claim C1. Of two Borrow calls against a book with one available copy exactly one is
  to succeed, and the count is never to fall below zero. The handler checks the copy
  count on the snapshot of its client (line 475) and the transaction decrements what it
  reads from the store without a check: two submissions that both hold the snapshot with
  one available copy both commit, the second on the store that the first has left with
  no copy, and the book ends with \<open>-1\<close> available copies.
\<close>

theorem stale_borrows_oversell:
  "handleBorrow env1 (books db1) ''u1'' ''b1'' db1 = (Committed, dbOut)
   \<and> fst (handleBorrow env2 (books db1) ''u2'' ''b1'' dbOut) = Committed
   \<and> map_of (books (snd (handleBorrow env2 (books db1) ''u2'' ''b1'' dbOut))) ''b1''
       = Some (book1\<lparr>availableCopies := - 1\<rparr>)
   \<and> availableCopies book1 = 1"
  by (simp add: borrow_db1 stale_borrow_dbOut) (simp add: book1_def)

text \<open>
  Claim C2, amended. From a state with unique document ids that satisfies I1 and I2,
  every sequence of Borrow and Return operations, each issued on current snapshots and
  each Borrow with a transaction id that is new, ends in a state that satisfies I1 (and
  I2): every book has between zero and \<open>totalCopies\<close> available copies.
\<close>

theorem run_keeps_invariants:
  assumes "uniqueIds db" and "I1 db" and "I2 db"
    and "distinct (newIds ops)" and "set (newIds ops) \<inter> fst ` set (transactions db) = {}"
  shows "I1 (run ops db) \<and> I2 (run ops db)"
  using run_preserves [OF assms] by simp

theorem run_keeps_invariants_witness:
  "uniqueIds db1 \<and> I1 db1 \<and> I2 db1 \<and> distinct (newIds ops1)
   \<and> set (newIds ops1) \<inter> fst ` set (transactions db1) = {}
   \<and> run ops1 db1 = dbBack \<and> I1 (run ops1 db1) \<and> I2 (run ops1 db1)"
proof -
  have d: "distinct (newIds ops1)"
    by (simp add: ops1_def env1_def env2_def)
  have f: "set (newIds ops1) \<inter> fst ` set (transactions db1) = {}"
    by (simp add: db1_def)
  from db1_invariants have "uniqueIds db1" and "I1 db1" and "I2 db1"
    by simp_all
  from run_keeps_invariants [OF this d f] db1_invariants d f run_ops1 show ?thesis
    by simp
qed

text \<open>
  Claim C2 as stated starts from I1 alone. A state that counts the only copy of a book
  as available while a loan of it is open satisfies I1, and the Return of that loan
  takes the book to two available copies of one.
\<close>

theorem I1_alone_not_preserved:
  "I1 dbFull \<and> \<not> I1 (run [Return ret1 ''t1''] dbFull)"
proof -
  have "map_of (transactions dbFull) ''t1'' = Some loan1"
    by (simp add: dbFull_def)
  then have "run [Return ret1 ''t1''] dbFull = snd (handleReturn ret1 (''t1'', loan1) dbFull)"
    by simp
  then show ?thesis
    unfolding return_dbFull by (simp add: I1_def dbFull_def book1_def)
qed

text \<open>
  Claim C3. Return on a transaction that is already returned is to change nothing, and
  two Returns of one transaction are to release the copy once and keep the fine. The
  guard of line 512 reads the row that the handler is given, not the stored document:
  \<open>handleReturn\<close> called twice on the same row of open loan \<open>t1\<close> commits twice, the
  second time on a store whose document of \<open>t1\<close> has a return date. The book ends with
  two available copies of one, and the recorded fine goes from \<open>0.50\<close> to \<open>1.00\<close>.
\<close>

theorem stale_returns_release_twice:
  "handleReturn ret1 (''t1'', loan1) dbOut = (Committed, dbBack)
   \<and> map_of (books dbBack) ''b1'' = Some book1
   \<and> map_option fineAmount (map_of (transactions dbBack) ''t1'') = Some (1 / 2)
   \<and> map_option returnDate (map_of (transactions dbBack) ''t1'') = Some (Some 1705449660250)
   \<and> fst (handleReturn ret2 (''t1'', loan1) dbBack) = Committed
   \<and> map_of (books (snd (handleReturn ret2 (''t1'', loan1) dbBack))) ''b1''
       = Some (book1\<lparr>availableCopies := 2\<rparr>)
   \<and> map_option fineAmount
        (map_of (transactions (snd (handleReturn ret2 (''t1'', loan1) dbBack))) ''t1'') = Some 1
   \<and> totalCopies book1 = 1"
  by (simp add: return_dbOut stale_return_dbBack) (simp add: dbBack_def book1_def)

text \<open>
  Claim C4. When the book has fewer than one available copy at the moment of the check,
  Borrow is to fail as unavailable, write no transaction and touch no count. The check of
  line 475 reads the count of the client's snapshot, and nothing reads the stored count
  before the decrement: on the store whose only copy is out (the stored count is \<open>0\<close>),
  a submission that holds the snapshot from before the loan commits, writes the
  transaction \<open>t2\<close> and takes the stored count to \<open>-1\<close>.
\<close>

theorem borrow_of_unavailable_book_commits:
  "map_of (books dbOut) ''b1'' = Some (book1\<lparr>availableCopies := 0\<rparr>)
   \<and> map_of (transactions dbOut) ''t2'' = None
   \<and> fst (handleBorrow env2 (books db1) ''u2'' ''b1'' dbOut) = Committed
   \<and> snd (handleBorrow env2 (books db1) ''u2'' ''b1'' dbOut) \<noteq> dbOut
   \<and> map_of (transactions (snd (handleBorrow env2 (books db1) ''u2'' ''b1'' dbOut))) ''t2''
       = Some (newTxn env2 ''u2'' ''b1'')
   \<and> map_option availableCopies
        (map_of (books (snd (handleBorrow env2 (books db1) ''u2'' ''b1'' dbOut))) ''b1'')
       = Some (- 1)"
  unfolding stale_borrow_dbOut by (simp add: dbOut_def)

text \<open>
  Claim C6 as stated has the release fail when the count would exceed
  \<open>totalCopies\<close>. On a book whose single copy is counted as available, the Return of
  an open loan commits and writes two available copies.
\<close>

theorem handleReturn_exceeds_total:
  "fst (handleReturn ret1 (''t1'', loan1) dbFull) = Committed
   \<and> map_of (books dbFull) ''b1'' = Some book1
   \<and> map_of (books (snd (handleReturn ret1 (''t1'', loan1) dbFull))) ''b1''
       = Some (book1\<lparr>availableCopies := 2\<rparr>)
   \<and> totalCopies book1 = 1 \<and> availableCopies book1 = 1"
  unfolding return_dbFull by (simp add: dbFull_def) (simp add: book1_def)

text \<open>
  Claim C6, amended. \<open>handleReturn\<close> does not compare with \<open>totalCopies\<close>: for a row
  without a return date whose book and transaction documents exist, it commits and
  writes the stored count of available copies plus one, whatever \<open>totalCopies\<close> is. Its
  only guard is the return date of the row.
\<close>

theorem handleReturn_no_capacity_check:
  assumes "returnDate t = None" and "map_of (books db) (bookId t) = Some b"
    and "map_of (transactions db) k = Some t0"
  shows "fst (handleReturn e (k, t) db) = Committed
     \<and> map_of (books (snd (handleReturn e (k, t) db))) (bookId t)
         = Some (b\<lparr>availableCopies := availableCopies b + 1\<rparr>)"
  using assms by (simp add: handleReturn_open map_of_modifyDoc)

theorem handleReturn_no_capacity_check_witness:
  "returnDate loan1 = None \<and> map_of (books dbFull) (bookId loan1) = Some book1
   \<and> map_of (transactions dbFull) ''t1'' = Some loan1
   \<and> availableCopies book1 = totalCopies book1
   \<and> fst (handleReturn ret1 (''t1'', loan1) dbFull) = Committed
   \<and> map_of (books (snd (handleReturn ret1 (''t1'', loan1) dbFull))) (bookId loan1)
         = Some (book1\<lparr>availableCopies := availableCopies book1 + 1\<rparr>)"
proof -
  have r: "returnDate loan1 = None"
    by (simp add: loan1_def)
  have b: "map_of (books dbFull) (bookId loan1) = Some book1"
    by (simp add: dbFull_def loan1_def)
  have t: "map_of (transactions dbFull) ''t1'' = Some loan1"
    by (simp add: dbFull_def)
  have f: "availableCopies book1 = totalCopies book1"
    by (simp add: book1_def)
  from handleReturn_no_capacity_check [OF r b t, of ret1] r b t f show ?thesis
    by simp
qed

text \<open>
  Claim C8 as stated has \<open>dueDate\<close> equal to \<open>borrowDate\<close> plus seven days. The
  stored \<open>borrowDate\<close> is the time of the server, the \<open>dueDate\<close> is computed from the
  clock of the client: with the server a quarter of a second after the client, the two
  are not seven days apart.
\<close>

theorem dueDate_not_borrowDate_plus_week:
  "handleBorrow env1 (books db1) ''u1'' ''b1'' db1 = (Committed, dbOut)
   \<and> map_of (transactions dbOut) ''t1'' = Some loan1
   \<and> borrowDate loan1 = Some 1704844800250
   \<and> dueDate loan1 = Some 1705449600000
   \<and> (1704844800250 :: int) + 7 * msPerDay \<noteq> 1705449600000"
  by (simp add: borrow_db1) (simp add: dbOut_def loan1_def msPerDay_def)

text \<open>
  Claim C8, amended. A Borrow that commits writes the stored count of available copies
  of the book minus one, leaves every other book as it was, and writes one transaction
  document, under the generated id, with the book, the user, no return date, the fine
  \<open>0\<close>, the server's time as \<open>borrowDate\<close>, and as \<open>dueDate\<close> the client's clock
  reading with the day of the month moved on by seven in the client's local time. When
  the two readings of the client's clock coincide, that is the reading plus seven days
  plus the zone offset at the reading minus the zone offset at the new local date:
  seven days exactly when the two offsets are equal, an hour less or more across a
  change of the clocks. Every other transaction document is as it was.
\<close>

theorem handleBorrow_success:
  assumes "handleBorrow e snapshot uid bid db = (Committed, db')"
  shows "\<exists>b. map_of (books db) bid = Some b
           \<and> map_of (books db') bid = Some (b\<lparr>availableCopies := availableCopies b - 1\<rparr>)
           \<and> (\<forall>k. k \<noteq> bid \<longrightarrow> map_of (books db') k = map_of (books db) k)
           \<and> map_of (transactions db') (autoId e)
               = Some \<lparr>bookId = bid, userId = uid, borrowDate = Some (serverTime e),
                       dueDate = Some (setDate (clientZone e) (dueNow e)
                                  (getDate (clientZone e) (borrowNow e) + BORROW_DAYS)),
                       returnDate = None, fineAmount = 0\<rparr>
           \<and> (\<forall>k. k \<noteq> autoId e \<longrightarrow> map_of (transactions db') k = map_of (transactions db) k)
           \<and> (dueNow e = borrowNow e \<longrightarrow>
                setDate (clientZone e) (dueNow e)
                   (getDate (clientZone e) (borrowNow e) + BORROW_DAYS)
                  = borrowNow e + 7 * msPerDay + offsetAtUTC (clientZone e) (borrowNow e)
                    - offsetAtLocal (clientZone e)
                        (borrowNow e + offsetAtUTC (clientZone e) (borrowNow e) + 7 * msPerDay))"
proof -
  have c: "fst (handleBorrow e snapshot uid bid db) = Committed"
    using assms by simp
  from handleBorrow_Committed [OF c] assms obtain b where
    b: "map_of (books db) bid = Some b"
    and db': "db' = db\<lparr>books := modifyDoc bid
                           (\<lambda>x. x\<lparr>availableCopies := availableCopies b - 1\<rparr>) (books db),
                transactions := t_set (autoId e) (newTxn e uid bid) (transactions db)\<rparr>"
    by auto
  have 1: "map_of (books db') bid = Some (b\<lparr>availableCopies := availableCopies b - 1\<rparr>)"
    using b unfolding db' by (simp add: map_of_modifyDoc)
  have 2: "\<forall>k. k \<noteq> bid \<longrightarrow> map_of (books db') k = map_of (books db) k"
    unfolding db' by (simp add: map_of_modifyDoc)
  have 3: "map_of (transactions db') (autoId e)
               = Some \<lparr>bookId = bid, userId = uid, borrowDate = Some (serverTime e),
                       dueDate = Some (setDate (clientZone e) (dueNow e)
                                  (getDate (clientZone e) (borrowNow e) + BORROW_DAYS)),
                       returnDate = None, fineAmount = 0\<rparr>"
    unfolding db' by (simp add: map_of_t_set newTxn_def)
  have 4: "\<forall>k. k \<noteq> autoId e \<longrightarrow> map_of (transactions db') k = map_of (transactions db) k"
    unfolding db' by (simp add: map_of_t_set)
  have 5: "dueNow e = borrowNow e \<longrightarrow>
                setDate (clientZone e) (dueNow e)
                   (getDate (clientZone e) (borrowNow e) + BORROW_DAYS)
                  = borrowNow e + 7 * msPerDay + offsetAtUTC (clientZone e) (borrowNow e)
                    - offsetAtLocal (clientZone e)
                        (borrowNow e + offsetAtUTC (clientZone e) (borrowNow e) + 7 * msPerDay)"
    by (simp add: setDate_getDate_offsets BORROW_DAYS_def)
  from b 1 2 3 4 5 show ?thesis by blast
qed

theorem handleBorrow_success_witness:
  "handleBorrow env1 (books db1) ''u1'' ''b1'' db1 = (Committed, dbOut)
   \<and> map_of (books db1) ''b1'' = Some book1
   \<and> map_of (books dbOut) ''b1'' = Some (book1\<lparr>availableCopies := availableCopies book1 - 1\<rparr>)
   \<and> dueNow env1 = borrowNow env1
   \<and> map_of (transactions dbOut) (autoId env1)
       = Some \<lparr>bookId = ''b1'', userId = ''u1'', borrowDate = Some (serverTime env1),
               dueDate = Some (borrowNow env1 + 7 * msPerDay),
               returnDate = None, fineAmount = 0\<rparr>
   \<and> fst (handleBorrow envNY (books db1) ''u1'' ''b1'' db1) = Committed
   \<and> dueNow envNY = borrowNow envNY
   \<and> map_option dueDate
        (map_of (transactions (snd (handleBorrow envNY (books db1) ''u1'' ''b1'' db1))) ''t3'')
       = Some (Some (borrowNow envNY + 7 * msPerDay - 3600000))"
proof -
  have h: "handleBorrow env1 (books db1) ''u1'' ''b1'' db1 = (Committed, dbOut)"
    by (rule borrow_db1)
  have m: "map_of (books db1) ''b1'' = Some book1"
    by (simp add: db1_def)
  have s: "dueNow env1 = borrowNow env1"
    by (simp add: env1_def)
  have z: "offsetAtUTC (clientZone env1) t = 0 \<and> offsetAtLocal (clientZone env1) t = 0" for t
    by (simp add: env1_def utcZone_def)
  from handleBorrow_success [OF h] m s h z have utc:
    "map_of (books dbOut) ''b1'' = Some (book1\<lparr>availableCopies := availableCopies book1 - 1\<rparr>)
     \<and> map_of (transactions dbOut) (autoId env1)
       = Some \<lparr>bookId = ''b1'', userId = ''u1'', borrowDate = Some (serverTime env1),
               dueDate = Some (borrowNow env1 + 7 * msPerDay),
               returnDate = None, fineAmount = 0\<rparr>"
    by auto
  have c: "fst (handleBorrow envNY (books db1) ''u1'' ''b1'' db1) = Committed"
    using handleBorrow_commit [of "''u1''" "''b1''" "books db1" book1 db1 book1 envNY]
    by (simp add: db1_def book1_def)
  then have hn: "handleBorrow envNY (books db1) ''u1'' ''b1'' db1
      = (Committed, snd (handleBorrow envNY (books db1) ''u1'' ''b1'' db1))"
    by (simp add: prod_eq_iff)
  have sn: "dueNow envNY = borrowNow envNY"
    by (simp add: envNY_def)
  have off: "borrowNow envNY + 7 * msPerDay + offsetAtUTC (clientZone envNY) (borrowNow envNY)
      - offsetAtLocal (clientZone envNY)
          (borrowNow envNY + offsetAtUTC (clientZone envNY) (borrowNow envNY) + 7 * msPerDay)
      = borrowNow envNY + 7 * msPerDay - 3600000"
    by (simp add: envNY_def newYork2024_def msPerDay_def)
  have id: "autoId envNY = ''t3''"
    by (simp add: envNY_def)
  from handleBorrow_success [OF hn] sn have
    "map_option dueDate
        (map_of (transactions (snd (handleBorrow envNY (books db1) ''u1'' ''b1'' db1))) ''t3'')
       = Some (Some (borrowNow envNY + 7 * msPerDay - 3600000))"
    unfolding id off [symmetric] by auto
  with h m s utc c sn show ?thesis
    by simp
qed

text \<open>
  Claim C7. The claim fails on two counts: the loop of line 737 compares the computed
  flag with the flag of the snapshot row and not with the stored one, and line 711
  counts every transaction with a positive fine, closed or not. With the users
  \<open>exUsers\<close> flagged on the log \<open>exLog\<close> and the fine of one late return then
  withdrawn, a recomputation by a client whose snapshot of the users is still \<open>exUsers\<close>
  finds the first user not flagged in its snapshot, writes nothing for that user, and
  leaves the stored flag true with one qualifying late return; and on a current snapshot,
  over the log \<open>exLogOpenFine\<close> in which the second fined transaction of that user is
  open, the recomputation stores the flag true although the user has one closed
  transaction with a fine.
\<close>

theorem defaulter_flag_differs_from_lateCount:
  "map_of exUsers ''u1'' = Some \<lparr>name = ''Ann'', role = Student, isDefaulter = False\<rparr>
   \<and> map_of (flagged exLog exUsers) ''u1''
       = Some \<lparr>name = ''Ann'', role = Student, isDefaulter = True\<rparr>
   \<and> lateCount exLogCorrected ''u1'' = 1
   \<and> defaulterEffect exUsers exLogCorrected (Some (flagged exLog exUsers))
       = Some [(''u1'', \<lparr>name = ''Ann'', role = Student, isDefaulter = True\<rparr>),
               (''u2'', \<lparr>name = ''Bob'', role = Staff, isDefaulter = False\<rparr>)]
   \<and> lateCount exLogOpenFine ''u1'' = 1
   \<and> defaulterEffect exUsers exLogOpenFine (Some exUsers)
       = Some [(''u1'', \<lparr>name = ''Ann'', role = Student, isDefaulter = True\<rparr>),
               (''u2'', \<lparr>name = ''Bob'', role = Staff, isDefaulter = False\<rparr>)]"
proof (intro conjI)
  show "map_of exUsers ''u1'' = Some \<lparr>name = ''Ann'', role = Student, isDefaulter = False\<rparr>"
    by (simp add: exUsers_def)
  show "map_of (flagged exLog exUsers) ''u1''
       = Some \<lparr>name = ''Ann'', role = Student, isDefaulter = True\<rparr>"
    by (simp add: flagged_examples)
  show "lateCount exLogCorrected ''u1'' = 1"
    by (rule lateCount_examples(2))
  show "defaulterEffect exUsers exLogCorrected (Some (flagged exLog exUsers))
       = Some [(''u1'', \<lparr>name = ''Ann'', role = Student, isDefaulter = True\<rparr>),
               (''u2'', \<lparr>name = ''Bob'', role = Staff, isDefaulter = False\<rparr>)]"
    by (rule defaulterEffect_stale_example)
  show "lateCount exLogOpenFine ''u1'' = 1"
    by (rule lateCount_examples(3))
  show "defaulterEffect exUsers exLogOpenFine (Some exUsers)
       = Some [(''u1'', \<lparr>name = ''Ann'', role = Student, isDefaulter = True\<rparr>),
               (''u2'', \<lparr>name = ''Bob'', role = Staff, isDefaulter = False\<rparr>)]"
    by (rule defaulterEffect_open_example)
qed

text \<open>
  Claim C7, as the code has it. Let the snapshot of the users hold one document for an
  id, and no id that names a member of \<^verbatim>\<open>Object.prototype\<close>. A recomputation
  rewrites the flag of exactly those stored users whose snapshot row disagrees with the
  computed flag, which is true when the user has at least two transactions with a
  positive fine, open or closed (\<open>reconciled\<close>). When the snapshot is the stored
  collection, every user is left stored with that computed flag and nothing else of a
  user changes; when moreover only closed transactions carry a fine, the flag is true
  exactly when the user has at least two closed transactions with a positive fine. The
  next recomputation, on the users it left and a changed log, leaves the flags that the
  changed log gives: a user who had two such transactions and has one left is no longer
  a defaulter.
\<close>

theorem defaulter_flags:
  assumes "distinct (map fst us)" and "\<forall>(k, u)\<in>set us. plainKey k"
  shows "defaulterEffect us ts (Some st) = Some (reconciled ts us st)
     \<and> defaulterEffect us ts (Some us) = Some (flagged ts us)
     \<and> map fst (flagged ts us) = map fst us
     \<and> (\<forall>(k, u)\<in>set (flagged ts us). isDefaulter u \<longleftrightarrow> 2 \<le> finedCount ts k)
     \<and> ((\<forall>(k, t)\<in>set ts. fineAmount t > 0 \<longrightarrow> returnDate t \<noteq> None) \<longrightarrow>
          flagged ts us = classified ts us
          \<and> (\<forall>(k, u)\<in>set (flagged ts us). isDefaulter u \<longleftrightarrow> 2 \<le> lateCount ts k))
     \<and> defaulterEffect (flagged ts us) ts' (Some (flagged ts us)) = Some (flagged ts' us)"
proof -
  have 1: "defaulterEffect us ts (Some st) = Some (reconciled ts us st)"
    by (rule defaulterEffect_eq [OF assms])
  have 2: "defaulterEffect us ts (Some us) = Some (flagged ts us)"
    using defaulterEffect_eq [OF assms, of ts us] reconciled_current [OF assms(1), of ts]
    by simp
  have 3: "map fst (flagged ts us) = map fst us"
    by (rule keys_flagged)
  have 4: "\<forall>(k, u)\<in>set (flagged ts us). isDefaulter u \<longleftrightarrow> 2 \<le> finedCount ts k"
    by (rule flags_flagged)
  have 5: "flagged ts us = classified ts us
          \<and> (\<forall>(k, u)\<in>set (flagged ts us). isDefaulter u \<longleftrightarrow> 2 \<le> lateCount ts k)"
    if c: "\<forall>(k, t)\<in>set ts. fineAmount t > 0 \<longrightarrow> returnDate t \<noteq> None"
    using flagged_closed [OF c, of us] 4 finedCount_closed [OF c] by simp
  have 6: "defaulterEffect (flagged ts us) ts' (Some (flagged ts us)) = Some (flagged ts' us)"
  proof -
    have d: "distinct (map fst (flagged ts us))"
      unfolding 3 by (rule assms(1))
    have "fst ` set (flagged ts us) = fst ` set us"
      using 3 by (metis set_map)
    with assms(2) have p: "\<forall>(k, u)\<in>set (flagged ts us). plainKey k"
      by force
    from defaulterEffect_eq [OF d p, of ts' "flagged ts us"] show ?thesis
      by (simp only: reconciled_current [OF d] flagged_twice)
  qed
  from 1 2 3 4 5 6 show ?thesis by blast
qed

theorem defaulter_flags_witness:
  "distinct (map fst exUsers)
   \<and> list_all (\<lambda>(k, u). plainKey k) exUsers
   \<and> list_all (\<lambda>(k, t). fineAmount t > 0 \<longrightarrow> returnDate t \<noteq> None) exLog
   \<and> lateCount exLog ''u1'' = 2
   \<and> defaulterEffect exUsers exLog (Some exUsers)
       = Some [(''u1'', \<lparr>name = ''Ann'', role = Student, isDefaulter = True\<rparr>),
               (''u2'', \<lparr>name = ''Bob'', role = Staff, isDefaulter = False\<rparr>)]
   \<and> classified exLog exUsers
       = [(''u1'', \<lparr>name = ''Ann'', role = Student, isDefaulter = True\<rparr>),
          (''u2'', \<lparr>name = ''Bob'', role = Staff, isDefaulter = False\<rparr>)]
   \<and> lateCount exLogCorrected ''u1'' = 1
   \<and> defaulterEffect (flagged exLog exUsers) exLogCorrected (Some (flagged exLog exUsers))
       = Some [(''u1'', \<lparr>name = ''Ann'', role = Student, isDefaulter = False\<rparr>),
               (''u2'', \<lparr>name = ''Bob'', role = Staff, isDefaulter = False\<rparr>)]
   \<and> defaulterEffect exUsers exLogCorrected (Some (flagged exLog exUsers))
       = Some (reconciled exLogCorrected exUsers (flagged exLog exUsers))"
proof -
  have d: "distinct (map fst exUsers)"
    by (rule exUsers_plain(1))
  have p: "\<forall>(k, u)\<in>set exUsers. plainKey k"
    using exUsers_plain(2) by (simp add: list_all_iff)
  have c: "\<forall>(k, t)\<in>set exLog. fineAmount t > 0 \<longrightarrow> returnDate t \<noteq> None"
    using exLog_fined_closed(1) by (simp add: list_all_iff)
  note inst = defaulter_flags [OF d p, of exLogCorrected "flagged exLog exUsers" exLogCorrected]
  note first = defaulter_flags [OF d p, of exLog exUsers exLogCorrected]
  have a: "defaulterEffect exUsers exLog (Some exUsers) = Some (flagged exLog exUsers)"
    by (rule first [THEN conjunct2, THEN conjunct1])
  have b: "flagged exLog exUsers = classified exLog exUsers"
    using first [THEN conjunct2, THEN conjunct2, THEN conjunct2, THEN conjunct2, THEN conjunct1]
      c by blast
  have n: "defaulterEffect (flagged exLog exUsers) exLogCorrected (Some (flagged exLog exUsers))
      = Some (flagged exLogCorrected exUsers)"
    by (rule first [THEN conjunct2, THEN conjunct2, THEN conjunct2, THEN conjunct2,
          THEN conjunct2])
  have s: "defaulterEffect exUsers exLogCorrected (Some (flagged exLog exUsers))
       = Some (reconciled exLogCorrected exUsers (flagged exLog exUsers))"
    by (rule inst [THEN conjunct1])
  show ?thesis
    unfolding a n b [symmetric] s
    using exUsers_plain exLog_fined_closed(1) lateCount_examples(1,2)
    by (simp only: flagged_examples simp_thms)
qed




end
